theory Spec2Isabelle
  imports Complex_Main "HOL-Library.Monad_Syntax"
begin

section \<open>Common Python values\<close>

text \<open>
  The repository is Python.  Exceptions that the modelled code can raise and that matter
  for a result are values of \<open>py_error\<close>; a function that can raise returns
  \<open>py_error + 'a\<close>.
\<close>

datatype py_error = IndexError | ValueError | KeyError | AttributeError

section \<open>core/proxy\_manager.py: the proxy pool\<close>

text \<open>
  \<^verbatim>\<open>ProxyInfo\<close> is a dataclass of five fields.  The field \<^verbatim>\<open>type\<close> is called
  \<open>proxy_type\<close> here.
\<close>

record ProxyInfo =
  proxy_type :: string
  hostname :: string
  port :: int
  username :: string
  password :: string

text \<open>
  \<^verbatim>\<open>ProxyManager\<close> holds the list \<^verbatim>\<open>proxies\<close> and the cursor \<^verbatim>\<open>current_index\<close>.
  The class only ever assigns \<open>0\<close> (constructor, \<^verbatim>\<open>clear_proxies\<close>) or a remainder
  modulo a positive length to the cursor, so it is a natural number.
\<close>

record ProxyManager =
  proxies :: "ProxyInfo list"
  current_index :: nat

definition ProxyManager_init :: ProxyManager where
  "ProxyManager_init = \<lparr>proxies = [], current_index = 0\<rparr>"

definition add_proxy :: "ProxyInfo \<Rightarrow> ProxyManager \<Rightarrow> ProxyManager" where
  "add_proxy proxy pm = pm\<lparr>proxies := proxies pm @ [proxy]\<rparr>"

definition clear_proxies :: "ProxyManager \<Rightarrow> ProxyManager" where
  "clear_proxies pm = pm\<lparr>proxies := [], current_index := 0\<rparr>"

text \<open>
  \<^verbatim>\<open>get_next_proxy\<close>: \<^verbatim>\<open>None\<close> on an empty pool; otherwise the element under the
  cursor, and the cursor advances modulo the length.  The subscript
  \<^verbatim>\<open>self.proxies[self.current_index]\<close> raises \<^verbatim>\<open>IndexError\<close> when the cursor is out
  of range, before the cursor is assigned.
\<close>

definition get_next_proxy :: "ProxyManager \<Rightarrow> (py_error + ProxyInfo option) \<times> ProxyManager" where
  "get_next_proxy pm =
     (if proxies pm = [] then (Inr None, pm)
      else if current_index pm < length (proxies pm)
      then (Inr (Some (proxies pm ! current_index pm)),
            pm\<lparr>current_index := (current_index pm + 1) mod length (proxies pm)\<rparr>)
      else (Inl IndexError, pm))"

text \<open>\<open>k\<close> consecutive calls of the getter, the results in call order.\<close>

fun get_next_proxy_calls ::
  "nat \<Rightarrow> ProxyManager \<Rightarrow> (py_error + ProxyInfo option) list \<times> ProxyManager" where
  "get_next_proxy_calls 0 pm = ([], pm)"
| "get_next_proxy_calls (Suc k) pm =
     (case get_next_proxy pm of (r, pm') \<Rightarrow>
        (case get_next_proxy_calls k pm' of (rs, pm'') \<Rightarrow> (r # rs, pm'')))"

section \<open>core/message\_handler.py: the send queue\<close>

text \<open>
  The transport client (Telethon's \<^verbatim>\<open>TelegramClient\<close>) is opaque: the model keeps only
  whether it is connected.
\<close>

record TelegramClient =
  connected :: bool

text \<open>
  The dataclasses \<^verbatim>\<open>MessageTask\<close> and \<^verbatim>\<open>FloodControl\<close>, and their defaults.  The
  field \<^verbatim>\<open>text\<close> is called \<open>message_text\<close> here.
\<close>

record MessageTask =
  session_name :: string
  chat_id :: int
  message_text :: string
  reply_to_id :: "int option"
  created_at :: real
  retry_count :: int
  max_retries :: int

definition MessageTask_init :: "string \<Rightarrow> int \<Rightarrow> string \<Rightarrow> int option \<Rightarrow> real \<Rightarrow> MessageTask" where
  "MessageTask_init s c t r now =
     \<lparr>session_name = s, chat_id = c, message_text = t, reply_to_id = r, created_at = now,
      retry_count = 0, max_retries = 3\<rparr>"

record FloodControl =
  last_message_time :: real
  message_count :: int
  flood_wait_until :: real

definition FloodControl_init :: FloodControl where
  "FloodControl_init = \<lparr>last_message_time = 0, message_count = 0, flood_wait_until = 0\<rparr>"

text \<open>
  \<^verbatim>\<open>config.flood_control\<close> (config.py, \<^verbatim>\<open>FloodControlConfig\<close>).  Times and durations are
  Python floats; they are real numbers here, so rounding is not modelled.
\<close>

record FloodControlConfig =
  max_concurrent_messages :: int
  message_delay :: real
  flood_wait_multiplier :: real

definition FloodControlConfig_default :: FloodControlConfig where
  "FloodControlConfig_default =
     \<lparr>max_concurrent_messages = 5, message_delay = 1, flood_wait_multiplier = 3 / 2\<rparr>"

text \<open>The part of \<^verbatim>\<open>MessageQueue\<close> that \<^verbatim>\<open>_send_message\<close> reads and writes.\<close>

record MessageQueue =
  queue :: "MessageTask list"
  flood_controls :: "string \<rightharpoonup> FloodControl"

definition MessageQueue_init :: MessageQueue where
  "MessageQueue_init = \<lparr>queue = [], flood_controls = Map.empty\<rparr>"

definition add_message :: "MessageTask \<Rightarrow> MessageQueue \<Rightarrow> MessageQueue" where
  "add_message task q = q\<lparr>queue := queue q @ [task]\<rparr>"

text \<open>\<^verbatim>\<open>get_flood_control\<close>: the entry of the session, created on first use.\<close>

definition get_flood_control :: "string \<Rightarrow> MessageQueue \<Rightarrow> FloodControl \<times> MessageQueue" where
  "get_flood_control name q =
     (case flood_controls q name of
        None \<Rightarrow> (FloodControl_init, q\<lparr>flood_controls := (flood_controls q)(name \<mapsto> FloodControl_init)\<rparr>)
      | Some fc \<Rightarrow> (fc, q))"

text \<open>
  The rate-limit exception is \<^verbatim>\<open>FloodWaitError\<close> of Telethon (line 15).  It carries the
  wait in its attribute \<^verbatim>\<open>seconds\<close> and has no attribute \<^verbatim>\<open>value\<close>: reading \<^verbatim>\<open>e.value\<close>
  raises \<^verbatim>\<open>AttributeError\<close>.
\<close>

record FloodWaitError =
  seconds :: int

definition flood_wait_value :: "FloodWaitError \<Rightarrow> py_error + int" where
  "flood_wait_value e = Inl AttributeError"

text \<open>
  What one call of \<^verbatim>\<open>_send_message\<close> takes from outside: the two clock readings
  (\<^verbatim>\<open>time.time()\<close> on entry, and again after the send returned or raised), the result of
  \<^verbatim>\<open>session_manager.active_sessions.get(task.session_name)\<close>, and how the inner
  \<^verbatim>\<open>try\<close> block ended:
  \<^item> \<open>Sent\<close>: \<^verbatim>\<open>client.send_message\<close> returned and the message was saved;
  \<^item> \<open>SentThenRaised\<close>: \<^verbatim>\<open>client.send_message\<close> returned, the flood control was
    updated, and a later statement of the block raised an \<^verbatim>\<open>Exception\<close>;
  \<^item> \<open>RaisedFloodWait e\<close>: the send raised the \<^verbatim>\<open>FloodWaitError\<close> \<open>e\<close>;
  \<^item> \<open>RaisedOther\<close>: the send raised any other \<^verbatim>\<open>Exception\<close>.
\<close>

datatype send_result = Sent | SentThenRaised | RaisedFloodWait FloodWaitError | RaisedOther

record send_env =
  time_entry :: real
  active_client :: "TelegramClient option"
  result :: send_result
  time_after :: real

text \<open>
  What a call does that is visible from outside, in order.  Every \<^verbatim>\<open>asyncio.sleep\<close> is
  recorded with the place it is called from: the flood-wait gate (line 156), the rate
  limit (161), and the sleeps before a re-enqueue when the client is missing (169), after a
  \<^verbatim>\<open>FloodWaitError\<close> (210) and after another error (219).
\<close>

datatype sleep_site = FloodWaitGate | RateLimitGate | ClientRetry | FloodRetry | ErrorRetry

datatype queue_log =
    LogFloodWaitActive
  | LogClientNotAvailable
  | LogMessageSent
  | LogFloodWait real
  | LogMaxRetriesExceeded
  | LogFailedToSend
  | LogErrorInMessageSending

datatype queue_event =
    Sleep sleep_site real
  | SendAttempt MessageTask
  | SaveMessage MessageTask
  | Put MessageTask
  | Log queue_log

text \<open>
  The retry of the client-missing and generic-error branches: below the cap the counter is
  incremented, the task sleeps \<^verbatim>\<open>2 ** task.retry_count\<close> seconds (with the new count) and is
  put back; at the cap nothing happens.
\<close>

definition retry_backoff ::
  "sleep_site \<Rightarrow> MessageTask \<Rightarrow> MessageQueue \<Rightarrow> queue_event list \<times> MessageQueue" where
  "retry_backoff site task q =
     (if retry_count task < max_retries task
      then (let task' = task\<lparr>retry_count := retry_count task + 1\<rparr>
            in ([Sleep site (2 powi retry_count task'), Put task'], q\<lparr>queue := queue q @ [task']\<rparr>))
      else ([], q))"

text \<open>
  The gate at the head of \<^verbatim>\<open>_send_message\<close> (lines 151 to 161): wait out a flood wait
  that is still running, then keep the minimum distance to the last message.  Both tests use
  the clock reading taken on entry.
\<close>

definition flood_gate :: "FloodControlConfig \<Rightarrow> send_env \<Rightarrow> FloodControl \<Rightarrow> queue_event list" where
  "flood_gate cfg env fc =
     (let current_time = time_entry env;
          time_since_last = current_time - last_message_time fc
      in (if current_time < flood_wait_until fc
          then [Log LogFloodWaitActive, Sleep FloodWaitGate (flood_wait_until fc - current_time)]
          else []) @
         (if time_since_last < message_delay cfg
          then [Sleep RateLimitGate (message_delay cfg - time_since_last)]
          else []))"

text \<open>
  \<^verbatim>\<open>MessageQueue._send_message\<close>.  In \<^verbatim>\<open>if not client or not client.is_connected\<close> the
  attribute \<^verbatim>\<open>is_connected\<close> is read without being called: it is a bound method, which is
  true, so the test is whether the lookup returned \<^verbatim>\<open>None\<close>.

  The handler of \<^verbatim>\<open>FloodWaitError\<close> starts by reading \<^verbatim>\<open>e.value\<close> (line 203).  An exception
  raised inside a handler is not caught by the other handlers of the same \<^verbatim>\<open>try\<close>; it
  reaches the outer \<^verbatim>\<open>except Exception\<close> (lines 222 and 223), which logs
  "Error in message sending" and does nothing else.
\<close>

definition send_message ::
  "FloodControlConfig \<Rightarrow> send_env \<Rightarrow> MessageTask \<Rightarrow> MessageQueue \<Rightarrow> queue_event list \<times> MessageQueue" where
  "send_message cfg env task q =
     (case get_flood_control (session_name task) q of (fc, q1) \<Rightarrow>
      let gate = flood_gate cfg env fc
      in case active_client env of
           None \<Rightarrow>
             (case retry_backoff ClientRetry task q1 of (ev, q2) \<Rightarrow>
                (gate @ [Log LogClientNotAvailable] @ ev, q2))
         | Some client \<Rightarrow>
             (case result env of
                Sent \<Rightarrow>
                  (let fc' = fc\<lparr>last_message_time := time_after env,
                                 message_count := message_count fc + 1\<rparr>
                   in (gate @ [SendAttempt task, SaveMessage task, Log LogMessageSent],
                       q1\<lparr>flood_controls := (flood_controls q1)(session_name task \<mapsto> fc')\<rparr>))
              | SentThenRaised \<Rightarrow>
                  (let fc' = fc\<lparr>last_message_time := time_after env,
                                 message_count := message_count fc + 1\<rparr>;
                       q2 = q1\<lparr>flood_controls := (flood_controls q1)(session_name task \<mapsto> fc')\<rparr>
                   in case retry_backoff ErrorRetry task q2 of (ev, q3) \<Rightarrow>
                        (gate @ [SendAttempt task, Log LogFailedToSend] @ ev, q3))
              | RaisedFloodWait e \<Rightarrow>
                  (case flood_wait_value e of
                     Inl err \<Rightarrow> (gate @ [SendAttempt task, Log LogErrorInMessageSending], q1)
                   | Inr w \<Rightarrow>
                       (let wait_time = of_int w * flood_wait_multiplier cfg;
                            fc' = fc\<lparr>flood_wait_until := time_after env + wait_time\<rparr>;
                            q2 = q1\<lparr>flood_controls := (flood_controls q1)(session_name task \<mapsto> fc')\<rparr>
                        in if retry_count task < max_retries task
                           then (let task' = task\<lparr>retry_count := retry_count task + 1\<rparr>
                                 in (gate @ [SendAttempt task, Log (LogFloodWait wait_time),
                                             Sleep FloodRetry (wait_time + 1), Put task'],
                                     q2\<lparr>queue := queue q2 @ [task']\<rparr>))
                           else (gate @ [SendAttempt task, Log (LogFloodWait wait_time),
                                         Log LogMaxRetriesExceeded], q2)))
              | RaisedOther \<Rightarrow>
                  (case retry_backoff ErrorRetry task q1 of (ev, q2) \<Rightarrow>
                     (gate @ [SendAttempt task, Log LogFailedToSend] @ ev, q2))))"

text \<open>
  \<^verbatim>\<open>_process_queue\<close>, the serial worker: take the task at the head, send it, repeat.  The
  list gives the outside of each call in turn; with an empty queue the worker only waits,
  which does nothing here.  One worker is enough for a queue that holds one task: a task is
  put back only at the end of the call that took it.
\<close>

fun process_queue ::
  "FloodControlConfig \<Rightarrow> send_env list \<Rightarrow> MessageQueue \<Rightarrow> queue_event list \<times> MessageQueue" where
  "process_queue cfg [] q = ([], q)"
| "process_queue cfg (env # envs) q =
     (case queue q of
        [] \<Rightarrow> ([], q)
      | task # rest \<Rightarrow>
          (case send_message cfg env task (q\<lparr>queue := rest\<rparr>) of (ev, q') \<Rightarrow>
             (case process_queue cfg envs q' of (evs, q'') \<Rightarrow> (ev @ evs, q''))))"

text \<open>Projections of a trace.\<close>

fun sleeps_at :: "sleep_site \<Rightarrow> queue_event list \<Rightarrow> real list" where
  "sleeps_at site [] = []"
| "sleeps_at site (Sleep s d # evs) = (if s = site then d # sleeps_at site evs else sleeps_at site evs)"
| "sleeps_at site (_ # evs) = sleeps_at site evs"

fun send_attempts :: "queue_event list \<Rightarrow> MessageTask list" where
  "send_attempts [] = []"
| "send_attempts (SendAttempt t # evs) = t # send_attempts evs"
| "send_attempts (_ # evs) = send_attempts evs"

fun puts :: "queue_event list \<Rightarrow> MessageTask list" where
  "puts [] = []"
| "puts (Put t # evs) = t # puts evs"
| "puts (_ # evs) = puts evs"

fun logs :: "queue_event list \<Rightarrow> queue_log list" where
  "logs [] = []"
| "logs (Log l # evs) = l # logs evs"
| "logs (_ # evs) = logs evs"

section \<open>core/message\_handler.py: the rule scheduler\<close>

text \<open>
  Decimal rendering of an integer, as \<^verbatim>\<open>str\<close> and f-strings produce it.
\<close>

definition digit_chars :: string where
  "digit_chars = ''0123456789''"

fun str_nat :: "nat \<Rightarrow> string" where
  "str_nat n = (if n < 10 then [digit_chars ! n] else str_nat (n div 10) @ [digit_chars ! (n mod 10)])"

declare str_nat.simps [simp del]

definition str_int :: "int \<Rightarrow> string" where
  "str_int i = (if i < 0 then CHR ''-'' # str_nat (nat (- i)) else str_nat (nat i))"

text \<open>
  A rule as \<^verbatim>\<open>db_manager.get_message_rules\<close> builds it, with the keys the scheduler reads.
  The key \<^verbatim>\<open>id\<close> is called \<open>rule_id\<close>.  \<^verbatim>\<open>rule_type\<close> is a database column and may be
  \<^verbatim>\<open>None\<close>; \<^verbatim>\<open>trigger_condition\<close> is decoded JSON, a dictionary in which either key may
  be absent (\<open>None\<close> here), \<^verbatim>\<open>scheduled_times\<close> being a list of \<^verbatim>\<open>"HH:MM"\<close> strings.
\<close>

record trigger_condition =
  scheduled_times :: "string list option"
  repeat_type :: "string option"

record rule =
  rule_id :: int
  rule_name :: string
  rule_type :: "string option"
  is_enabled :: bool
  trigger :: trigger_condition

text \<open>
  What \<^verbatim>\<open>_check_scheduled_rules\<close> reads from \<^verbatim>\<open>datetime.now()\<close>: the time of day as
  \<^verbatim>\<open>"%H:%M"\<close>, the weekday and the day of the month.  \<open>clock\<close> is the event loop's time
  in seconds at the tick.
\<close>

record tick =
  current_time :: string
  current_day :: nat
  current_date :: nat
  clock :: real

text \<open>
  \<^verbatim>\<open>RuleScheduler.scheduled_tasks\<close> maps a key to the task made by
  \<^verbatim>\<open>asyncio.create_task(asyncio.sleep(86400))\<close>.  A task is represented by the clock time
  at which its sleep ends; it is done from then on.
\<close>

type_synonym scheduled_tasks = "string \<rightharpoonup> real"

definition task_done :: "tick \<Rightarrow> real \<Rightarrow> bool" where
  "task_done now ends = (ends \<le> clock now)"

definition task_key :: "rule \<Rightarrow> tick \<Rightarrow> string" where
  "task_key r now = str_int (rule_id r) @ ''_'' @ current_time now"

text \<open>
  The body of the loop of \<^verbatim>\<open>_check_scheduled_rules\<close> for one rule: whether the rule is
  executed at this tick, and the markers afterwards.  A rule that is disabled or not of
  type \<^verbatim>\<open>scheduled\<close> is passed over.
\<close>

definition check_rule :: "tick \<Rightarrow> rule \<Rightarrow> scheduled_tasks \<Rightarrow> bool \<times> scheduled_tasks" where
  "check_rule now r tasks =
     (if \<not> is_enabled r \<or> rule_type r \<noteq> Some ''scheduled'' then (False, tasks)
      else
        let times = (case scheduled_times (trigger r) of None \<Rightarrow> [] | Some ts \<Rightarrow> ts);
            rt = (case repeat_type (trigger r) of None \<Rightarrow> ''once'' | Some t \<Rightarrow> t)
        in if current_time now \<in> set times
           then (if rt = ''once''
                 then (if tasks (task_key r now) = None
                       then (True, tasks(task_key r now \<mapsto> clock now + 86400))
                       else (False, tasks))
                 else if rt = ''daily'' then (True, tasks)
                 else if rt = ''weekly'' then (True, tasks)
                 else if rt = ''monthly'' then (True, tasks)
                 else (False, tasks))
           else (False, tasks))"

text \<open>
  \<^verbatim>\<open>_check_scheduled_rules\<close>: one tick over all rules, in the order the database returns
  them.  The result lists the rules handed to \<^verbatim>\<open>_execute_scheduled_rule\<close>, which catches
  its own errors, so the loop always goes on to the next rule.
\<close>

fun check_scheduled_rules :: "tick \<Rightarrow> rule list \<Rightarrow> scheduled_tasks \<Rightarrow> rule list \<times> scheduled_tasks" where
  "check_scheduled_rules now [] tasks = ([], tasks)"
| "check_scheduled_rules now (r # rs) tasks =
     (case check_rule now r tasks of (should_execute, tasks') \<Rightarrow>
        (case check_scheduled_rules now rs tasks' of (ex, tasks'') \<Rightarrow>
           ((if should_execute then [r] else []) @ ex, tasks'')))"

text \<open>
  \<^verbatim>\<open>_schedule_loop\<close>: the ticks in turn, each with the rules the database holds then.  The
  result lists, tick by tick, the rules executed.
\<close>

fun schedule_loop :: "(tick \<times> rule list) list \<Rightarrow> scheduled_tasks \<Rightarrow> rule list list \<times> scheduled_tasks" where
  "schedule_loop [] tasks = ([], tasks)"
| "schedule_loop ((now, rules) # ticks) tasks =
     (case check_scheduled_rules now rules tasks of (ex, tasks') \<Rightarrow>
        (case schedule_loop ticks tasks' of (exs, tasks'') \<Rightarrow> (ex # exs, tasks'')))"

text \<open>
  The spec's reading of \<^verbatim>\<open>weekly\<close> and \<^verbatim>\<open>monthly\<close>: the rule is treated as a \<^verbatim>\<open>daily\<close>
  one.  This definition follows the spec, not the code; it is what the code is compared
  with.
\<close>

definition spec_as_daily :: "rule \<Rightarrow> rule" where
  "spec_as_daily r =
     (if repeat_type (trigger r) = Some ''weekly'' \<or> repeat_type (trigger r) = Some ''monthly''
      then r\<lparr>trigger := (trigger r)\<lparr>repeat_type := Some ''daily''\<rparr>\<rparr>
      else r)"

section \<open>core/session\_manager.py and core/telegram\_client.py: stopping a session\<close>

text \<open>
  \<^verbatim>\<open>SessionManager.active_sessions\<close> and \<^verbatim>\<open>TelegramClientManager.clients\<close> both map a
  session name to a client object, and \<^verbatim>\<open>start_session\<close> puts the same object into both.
  The objects live in a store, addressed by a reference, so that a disconnect through one
  map is seen through the other.  \<open>db_is_active\<close> is the column \<^verbatim>\<open>is_active\<close> of the table
  \<^verbatim>\<open>sessions\<close>, by session name, for the rows that exist.
\<close>

type_synonym client_ref = nat

record system =
  client_store :: "client_ref \<Rightarrow> TelegramClient"
  active_sessions :: "string \<rightharpoonup> client_ref"
  clients :: "string \<rightharpoonup> client_ref"
  db_is_active :: "string \<rightharpoonup> bool"

text \<open>
  How a guarded block ends: it completes, or it raises an exception with a message.  One
  call of \<^verbatim>\<open>stop_session\<close> takes from outside how \<^verbatim>\<open>client.disconnect()\<close> ends, if it is
  called, and how the database update (\<^verbatim>\<open>execute_with_retry\<close>) ends.
\<close>

datatype outcome = Completes | Raises string

record stop_env =
  disconnect_outcome :: outcome
  db_outcome :: outcome

datatype stop_event =
    Disconnect client_ref
  | DebugAlreadyDisconnected
  | DebugDisconnectSkipped
  | WarningDisconnectError
  | DebugDatabaseUpdated
  | DebugDatabaseSkipped
  | WarningDatabaseError
  | InfoStopped

text \<open>
  The test \<^verbatim>\<open>"closed" in str(e).lower() or "loop" in str(e).lower()\<close> on the message of
  an exception.  Messages are taken to be ASCII.
\<close>

definition lower_char :: "char \<Rightarrow> char" where
  "lower_char c =
     (case map_of (zip ''ABCDEFGHIJKLMNOPQRSTUVWXYZ'' ''abcdefghijklmnopqrstuvwxyz'') c of
        None \<Rightarrow> c
      | Some l \<Rightarrow> l)"

fun starts_with :: "string \<Rightarrow> string \<Rightarrow> bool" where
  "starts_with [] s = True"
| "starts_with (p # ps) [] = False"
| "starts_with (p # ps) (c # cs) = (p = c \<and> starts_with ps cs)"

fun contains :: "string \<Rightarrow> string \<Rightarrow> bool" where
  "contains sub [] = (sub = [])"
| "contains sub (c # cs) = (starts_with sub (c # cs) \<or> contains sub cs)"

definition loop_closed :: "string \<Rightarrow> bool" where
  "loop_closed msg = (contains ''closed'' (map lower_char msg) \<or> contains ''loop'' (map lower_char msg))"

text \<open>\<^verbatim>\<open>UPDATE sessions SET is_active = 0 WHERE session_name = ?\<close>: the rows of that name.\<close>

definition db_set_inactive :: "string \<Rightarrow> (string \<rightharpoonup> bool) \<Rightarrow> (string \<rightharpoonup> bool)" where
  "db_set_inactive name db = (case db name of None \<Rightarrow> db | Some _ \<Rightarrow> db(name \<mapsto> False))"

text \<open>
  \<^verbatim>\<open>SessionManager.stop_session\<close>.  For a name that is not registered it returns
  \<^verbatim>\<open>False\<close> at once.  Otherwise: the client is disconnected unless \<^verbatim>\<open>is_connected()\<close> is
  already false; the database row is updated; the name is deleted from
  \<^verbatim>\<open>active_sessions\<close>; the result is \<^verbatim>\<open>True\<close>.  An exception of the disconnect or of the
  update is caught and logged, and the function goes on.
\<close>

definition disconnect_client :: "stop_env \<Rightarrow> client_ref \<Rightarrow> system \<Rightarrow> stop_event list \<times> system" where
  "disconnect_client env ref st =
     (if \<not> connected (client_store st ref) then ([DebugAlreadyDisconnected], st)
      else (case disconnect_outcome env of
              Completes \<Rightarrow>
                ([Disconnect ref],
                 st\<lparr>client_store := (client_store st)(ref := (client_store st ref)\<lparr>connected := False\<rparr>)\<rparr>)
            | Raises msg \<Rightarrow>
                ([Disconnect ref, if loop_closed msg then DebugDisconnectSkipped else WarningDisconnectError],
                 st)))"

definition update_database :: "stop_env \<Rightarrow> string \<Rightarrow> system \<Rightarrow> stop_event list \<times> system" where
  "update_database env name st =
     (case db_outcome env of
        Completes \<Rightarrow> ([DebugDatabaseUpdated], st\<lparr>db_is_active := db_set_inactive name (db_is_active st)\<rparr>)
      | Raises msg \<Rightarrow> ([if loop_closed msg then DebugDatabaseSkipped else WarningDatabaseError], st))"

definition stop_session :: "stop_env \<Rightarrow> string \<Rightarrow> system \<Rightarrow> (bool \<times> stop_event list) \<times> system" where
  "stop_session env name st =
     (case active_sessions st name of
        None \<Rightarrow> ((False, []), st)
      | Some ref \<Rightarrow>
          (case disconnect_client env ref st of (ev1, st1) \<Rightarrow>
             (case update_database env name st1 of (ev2, st2) \<Rightarrow>
                ((True, ev1 @ ev2 @ [InfoStopped]),
                 st2\<lparr>active_sessions := (active_sessions st2)(name := None)\<rparr>))))"

text \<open>
  \<^verbatim>\<open>TelegramClientManager.stop_session\<close>: stop through the session manager and, when that
  succeeded, forget the client in \<^verbatim>\<open>clients\<close> as well.
\<close>

definition client_manager_stop_session ::
  "stop_env \<Rightarrow> string \<Rightarrow> system \<Rightarrow> (bool \<times> stop_event list) \<times> system" where
  "client_manager_stop_session env name st =
     (case stop_session env name st of ((success, ev), st') \<Rightarrow>
        (if success \<and> clients st' name \<noteq> None
         then ((success, ev), st'\<lparr>clients := (clients st')(name := None)\<rparr>)
         else ((success, ev), st')))"

section \<open>ui/pages/script\_page.py: the script engine\<close>

subsection \<open>Python strings\<close>

text \<open>
  A Python \<^verbatim>\<open>str\<close> is a sequence of Unicode code points; it is a list of natural numbers
  here, so that the full-width separators of a script line are single characters, as in
  Python.  \<open>ascii\<close> turns a literal into such a string.
\<close>

type_synonym pystr = "nat list"

definition ascii :: "string \<Rightarrow> pystr" where
  "ascii s = map of_char s"

definition newline :: nat where "newline = 10"

text \<open>The separators \<^verbatim>\<open>U+3001\<close> (ideographic comma) and \<^verbatim>\<open>U+FF1A\<close> (full-width colon).\<close>

definition role_separator :: nat where "role_separator = 12289"

definition fullwidth_colon :: nat where "fullwidth_colon = 65306"

text \<open>
  The code points for which \<^verbatim>\<open>str.isspace\<close> holds; \<^verbatim>\<open>str.strip()\<close> removes them at both
  ends.
\<close>

definition whitespace :: "nat list" where
  "whitespace =
    [9, 10, 11, 12, 13, 28, 29, 30, 31, 32, 133, 160, 5760, 8192, 8193, 8194, 8195,
      8196, 8197, 8198, 8199, 8200, 8201, 8202, 8232, 8233, 8239, 8287, 12288]"

definition is_space :: "nat \<Rightarrow> bool" where
  "is_space c = (c \<in> set whitespace)"

definition strip :: "pystr \<Rightarrow> pystr" where
  "strip s = rev (dropWhile is_space (rev (dropWhile is_space s)))"

text \<open>\<^verbatim>\<open>s.split(sep)\<close> for a separator of one character: always at least one part.\<close>

fun split_on :: "nat \<Rightarrow> pystr \<Rightarrow> pystr list" where
  "split_on sep [] = [[]]"
| "split_on sep (c # cs) =
     (if c = sep then [] # split_on sep cs
      else (case split_on sep cs of [] \<Rightarrow> [[c]] | part # parts \<Rightarrow> (c # part) # parts))"

text \<open>
  \<^verbatim>\<open>s.split(sep, 1)\<close> for a separator of one character: the text before the first
  separator and, when there is one, the text after it.
\<close>

definition split_once :: "nat \<Rightarrow> pystr \<Rightarrow> pystr \<times> pystr option" where
  "split_once sep s =
     (if sep \<in> set s then (takeWhile (\<lambda>c. c \<noteq> sep) s, Some (tl (dropWhile (\<lambda>c. c \<noteq> sep) s)))
      else (s, None))"

text \<open>Removing a literal prefix; the text after the first occurrence of a literal.\<close>

fun strip_prefix :: "pystr \<Rightarrow> pystr \<Rightarrow> pystr option" where
  "strip_prefix [] s = Some s"
| "strip_prefix (p # ps) [] = None"
| "strip_prefix (p # ps) (c # cs) = (if p = c then strip_prefix ps cs else None)"

fun after_first :: "pystr \<Rightarrow> pystr \<Rightarrow> pystr option" where
  "after_first sub [] = strip_prefix sub []"
| "after_first sub (c # cs) =
     (case strip_prefix sub (c # cs) of Some rest \<Rightarrow> Some rest | None \<Rightarrow> after_first sub cs)"

text \<open>
  Decimal digits.  Both \<^verbatim>\<open>\d\<close> in a \<^verbatim>\<open>str\<close> pattern and \<^verbatim>\<open>int()\<close> accept every Unicode
  decimal digit (category Nd), not only \<^verbatim>\<open>0\<close> to \<^verbatim>\<open>9\<close>.  The digits come in runs of ten
  in the order 0 to 9; \<open>decimal_zeros\<close> lists the zero of each run (Unicode 14, the tables of
  CPython 3.11).
\<close>

definition decimal_zeros :: "nat list" where
  "decimal_zeros =
    [48, 1632, 1776, 1984, 2406, 2534, 2662, 2790, 2918, 3046, 3174, 3302, 3430, 3558,
      3664, 3792, 3872, 4160, 4240, 6112, 6160, 6470, 6608, 6784, 6800, 6992, 7088,
      7232, 7248, 42528, 43216, 43264, 43472, 43504, 43600, 44016, 65296, 66720, 68912,
      69734, 69872, 69942, 70096, 70384, 70736, 70864, 71248, 71360, 71472, 71904,
      72016, 72784, 73040, 73120, 92768, 92864, 93008, 120782, 120792, 120802, 120812,
      120822, 123200, 123632, 125264, 130032]"

definition digit_value :: "nat \<Rightarrow> nat option" where
  "digit_value c =
     (case find (\<lambda>z. z \<le> c \<and> c < z + 10) decimal_zeros of None \<Rightarrow> None | Some z \<Rightarrow> Some (c - z))"

definition is_digit :: "nat \<Rightarrow> bool" where
  "is_digit c = (digit_value c \<noteq> None)"

definition digits_value :: "pystr \<Rightarrow> nat" where
  "digits_value ds = foldl (\<lambda>acc c. 10 * acc + (case digit_value c of None \<Rightarrow> 0 | Some v \<Rightarrow> v)) 0 ds"

text \<open>
  \<^verbatim>\<open>int(s)\<close> on a string: surrounding whitespace is dropped, then an optional sign, then
  digits, where single underscores may stand between digits.  Anything else raises
  \<^verbatim>\<open>ValueError\<close>, and so does a literal of more digits than the interpreter's limit
  (\<^verbatim>\<open>sys.int_info.default_max_str_digits\<close>, 4300).  The whitespace \<^verbatim>\<open>int\<close> drops is that of
  \<^verbatim>\<open>str.strip\<close> without the four separators \<^verbatim>\<open>U+001C\<close> to \<^verbatim>\<open>U+001F\<close>: with one of
  these at either end the literal is invalid.
\<close>

definition int_max_str_digits :: nat where "int_max_str_digits = 4300"

definition is_int_space :: "nat \<Rightarrow> bool" where
  "is_int_space c = (is_space c \<and> \<not> (28 \<le> c \<and> c \<le> 31))"

definition int_strip :: "pystr \<Rightarrow> pystr" where
  "int_strip s = rev (dropWhile is_int_space (rev (dropWhile is_int_space s)))"

fun digit_groups :: "pystr \<Rightarrow> bool" where
  "digit_groups [] = False"
| "digit_groups [c] = is_digit c"
| "digit_groups (c # d # rest) =
     (is_digit c \<and> (if d = 95 then digit_groups rest else digit_groups (d # rest)))"

definition py_int :: "pystr \<Rightarrow> py_error + int" where
  "py_int s =
     (let t = int_strip s;
          negative = (case t of [] \<Rightarrow> False | c # _ \<Rightarrow> c = 45);
          body = (case t of [] \<Rightarrow> [] | c # rest \<Rightarrow> if c = 45 \<or> c = 43 then rest else t);
          ds = filter is_digit body
      in if digit_groups body \<and> length ds \<le> int_max_str_digits
         then Inr (if negative then - int (digits_value ds) else int (digits_value ds))
         else Inl ValueError)"

text \<open>
  The three patterns of the engine.  Each is a literal, one or more digits (the group), and
  a literal.  \<^verbatim>\<open>\d+\<close> is greedy and the character after the digits is not a digit, so a
  match at a position takes the whole run of digits there.  \<open>match_digits pre post s\<close>
  matches at the start of \<open>s\<close> and gives the group and the text after the match.
\<close>

definition match_digits :: "pystr \<Rightarrow> pystr \<Rightarrow> pystr \<Rightarrow> (pystr \<times> pystr) option" where
  "match_digits pre post s =
     (case strip_prefix pre s of
        None \<Rightarrow> None
      | Some r \<Rightarrow>
          (if takeWhile is_digit r = [] then None
           else (case strip_prefix post (dropWhile is_digit r) of
                   None \<Rightarrow> None
                 | Some rest \<Rightarrow> Some (takeWhile is_digit r, rest))))"

text \<open>\<^verbatim>\<open>re.search\<close>: the group of the leftmost match.\<close>

fun re_search :: "pystr \<Rightarrow> pystr \<Rightarrow> pystr \<Rightarrow> pystr option" where
  "re_search pre post [] = None"
| "re_search pre post (c # cs) =
     (case match_digits pre post (c # cs) of
        Some (ds, rest) \<Rightarrow> Some ds
      | None \<Rightarrow> re_search pre post cs)"

text \<open>\<^verbatim>\<open>re.search(r'R\[(\d+)\]', meta)\<close> and \<^verbatim>\<open>re.search(r'\[(\d+)s\]', meta)\<close>.\<close>

definition search_reply :: "pystr \<Rightarrow> pystr option" where
  "search_reply meta = re_search (ascii ''R['') (ascii '']'') meta"

definition search_delay :: "pystr \<Rightarrow> pystr option" where
  "search_delay meta = re_search (ascii ''['') (ascii ''s]'') meta"

text \<open>
  \<^verbatim>\<open>re.findall(r'@(\d+)', meta)\<close>: the groups of the matches from left to right, the scan
  going on behind each match.
\<close>

function findall_mentions :: "pystr \<Rightarrow> pystr list" where
  "findall_mentions [] = []"
| "findall_mentions (c # cs) =
     (if c = 64 \<and> takeWhile is_digit cs \<noteq> []
      then takeWhile is_digit cs # findall_mentions (dropWhile is_digit cs)
      else findall_mentions cs)"
  by pat_completeness auto
termination
  by (relation "measure length") (auto simp add: length_dropWhile_le le_imp_less_Suc)

subsection \<open>Accounts and role bindings\<close>

text \<open>
  The values an account dictionary holds: \<^verbatim>\<open>None\<close>, a string or an integer.  \<open>truthy\<close> is
  Python's truth test, \<open>format_value\<close> what an f-string prints.
\<close>

datatype pyval = PyNone | PyStr pystr | PyInt int

fun truthy :: "pyval \<Rightarrow> bool" where
  "truthy PyNone = False"
| "truthy (PyStr s) = (s \<noteq> [])"
| "truthy (PyInt i) = (i \<noteq> 0)"

fun format_value :: "pyval \<Rightarrow> pystr" where
  "format_value PyNone = ascii ''None''"
| "format_value (PyStr s) = s"
| "format_value (PyInt i) = ascii (str_int i)"

text \<open>
  An entry of \<^verbatim>\<open>group_accounts\<close>, as \<^verbatim>\<open>display_group_accounts\<close> builds it.  The key
  \<^verbatim>\<open>real_first_name\<close> is missing when the live lookup failed (\<open>None\<close> here); the other
  keys are always there.  \<^verbatim>\<open>account_map\<close> binds role numbers to accounts.
\<close>

record account =
  acc_session_name :: pystr
  acc_name :: pyval
  real_id :: pyval
  real_username :: pyval
  real_first_name :: "pyval option"

type_synonym account_map = "int \<rightharpoonup> account"

text \<open>\<^verbatim>\<open>SentLineIndex\<close>: \<^verbatim>\<open>self.sent_messages\<close>, from line number to remote message id.\<close>

type_synonym sent_messages = "int \<rightharpoonup> int"

subsection \<open>One line of the script\<close>

text \<open>
  What the engine does that is visible: sleeps, the two transport calls with their
  arguments (session of the sender, text or file and caption, \<^verbatim>\<open>reply_to\<close>), and the
  warning and error entries of the log with the line number.  Entries of level info, debug
  and success are left out.
\<close>

datatype script_log =
    WarnFormat int
  | ErrorRoleMissing int int
  | WarnReplyMissing int int
  | WarnMentionMissing int int
  | ErrorImageMissing int
  | ErrorImagePath int
  | ErrorImageSend int
  | ErrorNotConnected int
  | ErrorLineException int

datatype script_event =
    ScriptSleep real
  | SendMessage pystr pystr "int option"
  | SendFile pystr pystr "pystr option" "int option"
  | ScriptLog script_log

text \<open>
  What processing one line takes from outside: how often the pause flag is found set
  before the line starts; whether the sender's client is there and connected; what the
  transport call returns (the id of the sent message, or \<open>None\<close> when it raises); what the
  file system says about an image path (it exists, with its resolved name; it does not
  exist; handling it raises); and the random wait after the line.  The pause is one that
  ends: with a flag that stays set the line never starts, and a run has no trace here.
  Cancelling the task of the run is not part of the model either.
\<close>

datatype path_result = PathExists pystr | PathMissing | PathRaises

record line_env =
  pause_polls :: nat
  sender_connected :: bool
  send_returns :: "int option"
  resolve_image :: "pystr \<Rightarrow> path_result"
  wait_time :: real

text \<open>
  A line ends in one of two ways: with \<^verbatim>\<open>continue\<close>, which also skips the wait after the
  line, or by reaching the end of the loop body.
\<close>

datatype line_end = Continue | EndOfBody

text \<open>
  The reply marker (lines 627 to 633): the first \<^verbatim>\<open>R[n]\<close> of the meta part, looked up in
  the index.  A miss is a warning and no reply.
\<close>

definition resolve_reply ::
  "int \<Rightarrow> pystr \<Rightarrow> sent_messages \<Rightarrow> script_event list \<times> (py_error + int option)" where
  "resolve_reply line_number meta_part sent =
     (case search_reply meta_part of
        None \<Rightarrow> ([], Inr None)
      | Some ds \<Rightarrow>
          (case py_int ds of
             Inl e \<Rightarrow> ([], Inl e)
           | Inr target_line \<Rightarrow>
               (case sent target_line of
                  Some reply_id \<Rightarrow> ([], Inr (Some reply_id))
                | None \<Rightarrow> ([ScriptLog (WarnReplyMissing line_number target_line)], Inr None))))"

text \<open>The mention markers (lines 636 to 644): the bound roles, in order.\<close>

fun resolve_mentions ::
  "int \<Rightarrow> account_map \<Rightarrow> pystr list \<Rightarrow> script_event list \<times> (py_error + account list)" where
  "resolve_mentions line_number amap [] = ([], Inr [])"
| "resolve_mentions line_number amap (m # ms) =
     (case py_int m of
        Inl e \<Rightarrow> ([], Inl e)
      | Inr m_role \<Rightarrow>
          (case resolve_mentions line_number amap ms of (evs, rest) \<Rightarrow>
             (case amap m_role of
                Some acc \<Rightarrow> (evs, map_sum id (\<lambda>accs. acc # accs) rest)
              | None \<Rightarrow> (ScriptLog (WarnMentionMissing line_number m_role) # evs, rest))))"

text \<open>The inline delay (lines 647 to 651): the engine sleeps before it goes on.\<close>

definition resolve_delay :: "pystr \<Rightarrow> script_event list \<times> (py_error + unit)" where
  "resolve_delay meta_part =
     (case search_delay meta_part of
        None \<Rightarrow> ([], Inr ())
      | Some ds \<Rightarrow>
          (case py_int ds of
             Inl e \<Rightarrow> ([], Inl e)
           | Inr delay_extra \<Rightarrow> ([ScriptSleep (of_int delay_extra)], Inr ())))"

text \<open>
  The three markers together.  They are read only when the content has a full-width colon;
  the meta part is the text before the first one.  The reply marker is read first, then
  the mentions, then the delay; an exception ends the parsing where it is raised.
\<close>

definition resolve_mentions_delay ::
  "int \<Rightarrow> pystr \<Rightarrow> account_map \<Rightarrow> script_event list \<times> (py_error + account list)" where
  "resolve_mentions_delay line_number meta_part amap =
     (case resolve_mentions line_number amap (findall_mentions meta_part) of
        (ev2, Inl e) \<Rightarrow> (ev2, Inl e)
      | (ev2, Inr mentions) \<Rightarrow>
          (case resolve_delay meta_part of
             (ev3, Inl e) \<Rightarrow> (ev2 @ ev3, Inl e)
           | (ev3, Inr _) \<Rightarrow> (ev2 @ ev3, Inr mentions)))"

definition parse_directives ::
  "int \<Rightarrow> pystr \<Rightarrow> account_map \<Rightarrow> sent_messages \<Rightarrow>
     script_event list \<times> (py_error + int option \<times> account list)" where
  "parse_directives line_number content_part amap sent =
     (if fullwidth_colon \<in> set content_part
      then (let meta_part = fst (split_once fullwidth_colon content_part)
            in case resolve_reply line_number meta_part sent of
                 (ev1, Inl e) \<Rightarrow> (ev1, Inl e)
               | (ev1, Inr reply_id) \<Rightarrow>
                   (case resolve_mentions_delay line_number meta_part amap of
                      (ev2, Inl e) \<Rightarrow> (ev1 @ ev2, Inl e)
                    | (ev2, Inr mentions) \<Rightarrow> (ev1 @ ev2, Inr (reply_id, mentions))))
      else ([], Inr (None, [])))"

text \<open>
  The text of one mention (lines 657 to 667): \<^verbatim>\<open>@username\<close> when the account has a
  username, else a text mention by id, else \<^verbatim>\<open>@name\<close>; each followed by a space.
\<close>

definition mention_text :: "account \<Rightarrow> pystr" where
  "mention_text m_acc =
     (let name = (case real_first_name m_acc of None \<Rightarrow> acc_name m_acc | Some v \<Rightarrow> v)
      in if truthy (real_username m_acc)
         then ascii ''@'' @ format_value (real_username m_acc) @ ascii '' ''
         else if truthy (real_id m_acc)
         then ascii ''['' @ format_value name @ ascii ''](tg://user?id='' @ format_value (real_id m_acc)
              @ ascii '') ''
         else ascii ''@'' @ format_value name @ ascii '' '')"

definition prefix_text :: "account list \<Rightarrow> pystr" where
  "prefix_text mentions = concat (map mention_text mentions)"

text \<open>
  The image marker (lines 673 to 734): the text after the first \<^verbatim>\<open>IMG:\<close> of the content
  is a path, or a path and a caption separated by a full-width colon or by the only plain
  colon.  The result is the resolved path and the caption when the file exists.
\<close>

definition split_image :: "pystr \<Rightarrow> pystr \<times> pystr" where
  "split_image remaining =
     (if fullwidth_colon \<in> set remaining
      then (case split_once fullwidth_colon remaining of
              (path, caption) \<Rightarrow> (strip path, (case caption of None \<Rightarrow> [] | Some c \<Rightarrow> strip c)))
      else if 58 \<in> set remaining \<and> count_list remaining 58 = 1
      then (case split_once 58 remaining of
              (path, caption) \<Rightarrow> (strip path, (case caption of None \<Rightarrow> [] | Some c \<Rightarrow> strip c)))
      else (strip remaining, []))"

definition parse_image ::
  "line_env \<Rightarrow> int \<Rightarrow> pystr \<Rightarrow> script_event list \<times> (py_error + (pystr \<times> pystr) option)" where
  "parse_image env line_number content_part =
     (case after_first (ascii ''IMG:'') content_part of
        None \<Rightarrow> ([], Inr None)
      | Some rest \<Rightarrow>
          (case split_image (strip rest) of (path, caption) \<Rightarrow>
             (if path \<noteq> []
              then (case resolve_image env path of
                      PathExists image_path \<Rightarrow> ([], Inr (Some (image_path, caption)))
                    | PathMissing \<Rightarrow> ([ScriptLog (ErrorImageMissing line_number)], Inr None)
                    | PathRaises \<Rightarrow> ([], Inl ValueError))
              else ([ScriptLog (ErrorImagePath line_number)], Inr None))))"

text \<open>
  The send (lines 754 to 794), for a sender whose client is connected: a file with the text
  as caption when there is an image, a text message otherwise.  A failing file send is
  logged and ends the line with \<^verbatim>\<open>continue\<close>; a failing text send raises.  After a send
  that returned, the message id is recorded under the line number.
\<close>

definition send_line ::
  "line_env \<Rightarrow> int \<Rightarrow> account \<Rightarrow> pystr \<Rightarrow> (pystr \<times> pystr) option \<Rightarrow> int option \<Rightarrow> sent_messages \<Rightarrow>
     script_event list \<times> line_end \<times> sent_messages" where
  "send_line env line_number sender_acc final_text img reply_id sent =
     (if sender_connected env
      then (case img of
              Some (image_path, image_caption) \<Rightarrow>
                (case send_returns env of
                   Some msg_id \<Rightarrow>
                     ([SendFile (acc_session_name sender_acc) image_path
                         (if final_text \<noteq> [] then Some final_text else None) reply_id],
                      EndOfBody, sent(line_number \<mapsto> msg_id))
                 | None \<Rightarrow>
                     ([SendFile (acc_session_name sender_acc) image_path
                         (if final_text \<noteq> [] then Some final_text else None) reply_id,
                       ScriptLog (ErrorImageSend line_number)],
                      Continue, sent))
            | None \<Rightarrow>
                (case send_returns env of
                   Some msg_id \<Rightarrow>
                     ([SendMessage (acc_session_name sender_acc) final_text reply_id],
                      EndOfBody, sent(line_number \<mapsto> msg_id))
                 | None \<Rightarrow>
                     ([SendMessage (acc_session_name sender_acc) final_text reply_id,
                       ScriptLog (ErrorLineException line_number)],
                      EndOfBody, sent)))
      else ([ScriptLog (ErrorNotConnected line_number)], EndOfBody, sent))"

text \<open>
  The second half of the loop body (lines 653 to 794), once the markers are read: the
  prefix of mentions, the image, the final text and the send.
\<close>

definition finish_line ::
  "line_env \<Rightarrow> int \<Rightarrow> account \<Rightarrow> pystr \<Rightarrow> account list \<Rightarrow> int option \<Rightarrow> sent_messages \<Rightarrow>
     script_event list \<times> line_end \<times> sent_messages" where
  "finish_line env line_number sender_acc content_part mentions reply_id sent =
     (let msg_content =
            (case split_once fullwidth_colon content_part of
               (_, Some text_body) \<Rightarrow> text_body
             | (_, None) \<Rightarrow> content_part)
      in case parse_image env line_number content_part of
           (ev2, Inl e) \<Rightarrow> (ev2 @ [ScriptLog (ErrorLineException line_number)], EndOfBody, sent)
         | (ev2, Inr img) \<Rightarrow>
             (let final_text =
                    (case img of
                       Some (image_path, image_caption) \<Rightarrow> strip (prefix_text mentions @ image_caption)
                     | None \<Rightarrow> strip (prefix_text mentions @ msg_content))
              in case send_line env line_number sender_acc final_text img reply_id sent of
                   (ev3, fin, sent') \<Rightarrow> (ev2 @ ev3, fin, sent')))"

text \<open>
  The body of the loop of \<^verbatim>\<open>_run_script_loop\<close> for one line, without the wait after it:
  the pause, the role separator, the role number and its account, the markers, and the
  rest.  Every exception inside the body is caught at its end and logged with the line
  number.
\<close>

definition process_line ::
  "line_env \<Rightarrow> int \<Rightarrow> pystr \<Rightarrow> account_map \<Rightarrow> sent_messages \<Rightarrow>
     script_event list \<times> line_end \<times> sent_messages" where
  "process_line env line_number line amap sent =
     (let paused = replicate (pause_polls env) (ScriptSleep (1 / 2))
      in case split_once role_separator line of
           (_, None) \<Rightarrow> (paused @ [ScriptLog (WarnFormat line_number)], Continue, sent)
         | (role, Some rest) \<Rightarrow>
             (case py_int (strip role) of
                Inl e \<Rightarrow> (paused @ [ScriptLog (ErrorLineException line_number)], EndOfBody, sent)
              | Inr role_num \<Rightarrow>
                  (case amap role_num of
                     None \<Rightarrow>
                       (paused @ [ScriptLog (ErrorRoleMissing line_number role_num)], Continue, sent)
                   | Some sender_acc \<Rightarrow>
                       (case parse_directives line_number (strip rest) amap sent of
                          (ev1, Inl e) \<Rightarrow>
                            (paused @ ev1 @ [ScriptLog (ErrorLineException line_number)], EndOfBody, sent)
                        | (ev1, Inr (reply_id, mentions)) \<Rightarrow>
                            (case finish_line env line_number sender_acc (strip rest) mentions
                                    reply_id sent of
                               (ev2, fin, sent') \<Rightarrow> (paused @ ev1 @ ev2, fin, sent'))))))"

subsection \<open>The run\<close>

text \<open>
  \<^verbatim>\<open>_run_script_loop\<close>: the lines in order, the line at index \<open>i\<close> under the line number
  \<open>i + 1\<close>; after every line but the last, unless it ended with \<^verbatim>\<open>continue\<close>, a random
  wait.  \<open>env i\<close> is the outside of the line at index \<open>i\<close>.
\<close>

fun run_lines ::
  "(nat \<Rightarrow> line_env) \<Rightarrow> account_map \<Rightarrow> nat \<Rightarrow> pystr list \<Rightarrow> sent_messages \<Rightarrow>
     script_event list \<times> sent_messages" where
  "run_lines env amap index [] sent = ([], sent)"
| "run_lines env amap index (line # lines) sent =
     (case process_line (env index) (int index + 1) line amap sent of (ev, fin, sent') \<Rightarrow>
        (case run_lines env amap (Suc index) lines sent' of (evs, sent'') \<Rightarrow>
           (ev @ (if fin = EndOfBody \<and> lines \<noteq> [] then [ScriptSleep (wait_time (env index))] else [])
               @ evs,
            sent'')))"

definition run_script_loop ::
  "(nat \<Rightarrow> line_env) \<Rightarrow> account_map \<Rightarrow> pystr list \<Rightarrow> sent_messages \<Rightarrow>
     script_event list \<times> sent_messages" where
  "run_script_loop env amap lines sent = run_lines env amap 0 lines sent"

text \<open>
  \<^verbatim>\<open>execute_script\<close>, line 512: the text of the script view is split at newlines, every
  line is stripped, and the lines that are empty then are dropped.  The run starts with an
  empty index.  Nothing runs for a script without a line.  This is the single run (loop
  mode off) for a selected group; the bindings of the role numbers, which \<^verbatim>\<open>execute_script\<close>
  builds from the order of the accounts, are a parameter.  In loop mode the same
  \<^verbatim>\<open>_run_script_loop\<close> runs again and again on the index the round before left, which is
  why \<open>run_script_loop\<close> takes the index it starts with.
\<close>

definition script_lines :: "pystr \<Rightarrow> pystr list" where
  "script_lines script = [strip line. line \<leftarrow> split_on newline script, strip line \<noteq> []]"

definition execute_script ::
  "(nat \<Rightarrow> line_env) \<Rightarrow> account_map \<Rightarrow> pystr \<Rightarrow> (script_event list \<times> sent_messages) option" where
  "execute_script env amap script =
     (if strip script = [] then None
      else if script_lines script = [] then None
      else Some (run_script_loop env amap (script_lines script) Map.empty))"

text \<open>
  Within a run: the index as it is when the line at index \<open>j\<close> starts, and what that line
  does.
\<close>

definition sent_before ::
  "(nat \<Rightarrow> line_env) \<Rightarrow> account_map \<Rightarrow> pystr list \<Rightarrow> sent_messages \<Rightarrow> nat \<Rightarrow> sent_messages" where
  "sent_before env amap lines sent j = snd (run_lines env amap 0 (take j lines) sent)"

definition line_events ::
  "(nat \<Rightarrow> line_env) \<Rightarrow> account_map \<Rightarrow> pystr list \<Rightarrow> sent_messages \<Rightarrow> nat \<Rightarrow> script_event list" where
  "line_events env amap lines sent j =
     fst (process_line (env j) (int j + 1) (lines ! j) amap (sent_before env amap lines sent j))"

text \<open>The transport calls of a trace, with the reply target of each.\<close>

fun sends :: "script_event list \<Rightarrow> script_event list" where
  "sends [] = []"
| "sends (SendMessage s t r # evs) = SendMessage s t r # sends evs"
| "sends (SendFile s f c r # evs) = SendFile s f c r # sends evs"
| "sends (_ # evs) = sends evs"

fun reply_to :: "script_event \<Rightarrow> int option" where
  "reply_to (SendMessage s t r) = r"
| "reply_to (SendFile s f c r) = r"
| "reply_to _ = None"

fun without_reply :: "script_event \<Rightarrow> script_event" where
  "without_reply (SendMessage s t r) = SendMessage s t None"
| "without_reply (SendFile s f c r) = SendFile s f c None"
| "without_reply e = e"

text \<open>
  The line number a line refers to with its reply marker, read as the engine reads it: the
  first \<^verbatim>\<open>R[n]\<close> before the first full-width colon of the content.
\<close>

definition reply_target :: "pystr \<Rightarrow> int option" where
  "reply_target line =
     (case split_once role_separator line of
        (_, None) \<Rightarrow> None
      | (_, Some rest) \<Rightarrow>
          (if fullwidth_colon \<in> set (strip rest)
           then (case search_reply (fst (split_once fullwidth_colon (strip rest))) of
                   None \<Rightarrow> None
                 | Some ds \<Rightarrow> (case py_int ds of Inl e \<Rightarrow> None | Inr target_line \<Rightarrow> Some target_line))
           else None))"

text \<open>
  The accounts a line mentions, read as the engine reads them: the bound roles among the
  \<^verbatim>\<open>@n\<close> markers before the first full-width colon of the content, in order.  The body of
  the message is the text after that colon, or the whole content when there is none.
\<close>

definition mentioned :: "account_map \<Rightarrow> pystr \<Rightarrow> account list" where
  "mentioned amap content_part =
     (if fullwidth_colon \<in> set content_part
      then concat (map (\<lambda>m. case py_int m of
                               Inl e \<Rightarrow> []
                             | Inr m_role \<Rightarrow> (case amap m_role of None \<Rightarrow> [] | Some acc \<Rightarrow> [acc]))
                     (findall_mentions (fst (split_once fullwidth_colon content_part))))
      else [])"

definition message_body :: "pystr \<Rightarrow> pystr" where
  "message_body content_part =
     (case split_once fullwidth_colon content_part of
        (_, Some text_body) \<Rightarrow> text_body
      | (_, None) \<Rightarrow> content_part)"

text \<open>Example values.\<close>

definition example_proxy :: "string \<Rightarrow> ProxyInfo" where
  "example_proxy h = \<lparr>proxy_type = ''socks5'', hostname = h, port = 1080, username = '''', password = ''''\<rparr>"

definition failing_env :: send_env where
  "failing_env = \<lparr>time_entry = 1000, active_client = Some \<lparr>connected = True\<rparr>,
                  result = RaisedOther, time_after = 1001\<rparr>"

definition flood_env :: send_env where
  "flood_env = \<lparr>time_entry = 1000, active_client = Some \<lparr>connected = True\<rparr>,
                result = RaisedFloodWait \<lparr>seconds = 10\<rparr>, time_after = 1001\<rparr>"

definition no_client_env :: send_env where
  "no_client_env = \<lparr>time_entry = 1000, active_client = None, result = Sent, time_after = 1001\<rparr>"

definition once_rule :: rule where
  "once_rule = \<lparr>rule_id = 7, rule_name = ''morning'', rule_type = Some ''scheduled'', is_enabled = True,
     trigger = \<lparr>scheduled_times = Some [''09:00''], repeat_type = Some ''once''\<rparr>\<rparr>"

definition tick_at :: "string \<Rightarrow> nat \<Rightarrow> nat \<Rightarrow> real \<Rightarrow> tick" where
  "tick_at hm wd dm c = \<lparr>current_time = hm, current_day = wd, current_date = dm, clock = c\<rparr>"

definition weekly_rule :: rule where
  "weekly_rule = \<lparr>rule_id = 8, rule_name = ''report'', rule_type = Some ''scheduled'', is_enabled = True,
     trigger = \<lparr>scheduled_times = Some [''09:00''], repeat_type = Some ''weekly''\<rparr>\<rparr>"

definition running_system :: system where
  "running_system =
     \<lparr>client_store = (\<lambda>_. \<lparr>connected = True\<rparr>),
      active_sessions = [''alice'' \<mapsto> 0],
      clients = [''alice'' \<mapsto> 0],
      db_is_active = [''alice'' \<mapsto> True]\<rparr>"

definition db_locked_env :: stop_env where
  "db_locked_env = \<lparr>disconnect_outcome = Completes, db_outcome = Raises ''database is locked''\<rparr>"

definition ok_env :: stop_env where
  "ok_env = \<lparr>disconnect_outcome = Completes, db_outcome = Completes\<rparr>"

definition stopped_client_system :: system where
  "stopped_client_system = running_system\<lparr>client_store := (\<lambda>_. \<lparr>connected = False\<rparr>)\<rparr>"

definition scenario_b_content :: pystr where
  "scenario_b_content = ascii ''@2'' @ [fullwidth_colon] @ ascii ''hello''"

definition scenario_b_line :: pystr where
  "scenario_b_line = ascii ''1'' @ [role_separator] @ scenario_b_content"

definition scenario_c_content :: pystr where
  "scenario_c_content = ascii ''R[3]'' @ [fullwidth_colon] @ ascii ''thanks''"

definition scenario_c_line :: pystr where
  "scenario_c_line = ascii ''1'' @ [role_separator] @ scenario_c_content"

definition reply_content :: pystr where
  "reply_content = ascii ''R[1]'' @ [fullwidth_colon] @ ascii ''thanks''"

definition reply_line :: pystr where
  "reply_line = ascii ''2'' @ [role_separator] @ reply_content"

definition account_a :: account where
  "account_a = \<lparr>acc_session_name = ascii ''sa'', acc_name = PyStr (ascii ''Al''), real_id = PyInt 555,
                 real_username = PyNone, real_first_name = Some (PyStr (ascii ''Al''))\<rparr>"

definition account_b :: account where
  "account_b = \<lparr>acc_session_name = ascii ''sb'', acc_name = PyStr (ascii ''Bo''), real_id = PyInt 777,
                 real_username = PyStr (ascii ''bob''), real_first_name = Some (PyStr (ascii ''Bo''))\<rparr>"

definition example_accounts :: account_map where
  "example_accounts = [1 \<mapsto> account_a, 2 \<mapsto> account_b]"

definition example_env :: "nat \<Rightarrow> line_env" where
  "example_env i = \<lparr>pause_polls = 0, sender_connected = True, send_returns = Some (100 + int i),
                     resolve_image = (\<lambda>_. PathMissing), wait_time = 1\<rparr>"

definition blank_script :: pystr where
  "blank_script = [newline] @ scenario_b_line @ [newline, 32, newline] @ reply_line"

definition reply_script :: "pystr list" where
  "reply_script = [scenario_b_line, reply_line]"

definition swapped_accounts :: account_map where
  "swapped_accounts = [1 \<mapsto> account_b, 2 \<mapsto> account_a]"

definition example_task :: MessageTask where
  "example_task = MessageTask_init ''alice'' 42 ''hello'' None 999"

section \<open>Properties of the proxy pool\<close>

lemma get_next_proxy_in_range:
  assumes "i < length ps"
  shows "get_next_proxy \<lparr>proxies = ps, current_index = i\<rparr> =
           (Inr (Some (ps ! i)), \<lparr>proxies = ps, current_index = Suc i mod length ps\<rparr>)"
  using assms by (auto simp: get_next_proxy_def)

lemma get_next_proxy_calls_cycle:
  assumes "i < length ps"
  shows "get_next_proxy_calls k \<lparr>proxies = ps, current_index = i\<rparr> =
           (map (\<lambda>j. Inr (Some (ps ! ((i + j) mod length ps)))) [0..<k],
            \<lparr>proxies = ps, current_index = (i + k) mod length ps\<rparr>)"
  using assms
proof (induction k arbitrary: i)
  case 0
  then show ?case by simp
next
  case (Suc k)
  have lt: "Suc i mod length ps < length ps"
    using Suc.prems by (cases ps) auto
  have shift: "map (\<lambda>j. Inr (Some (ps ! ((Suc i mod length ps + j) mod length ps)))) [0..<k] =
               map (\<lambda>j. (Inr (Some (ps ! ((i + j) mod length ps))) :: py_error + ProxyInfo option)) [Suc 0..<Suc k]"
    unfolding map_Suc_upt [symmetric] by (simp add: mod_simps del: upt_Suc)
  show ?case
    using Suc.IH [OF lt] Suc.prems shift
    by (simp add: get_next_proxy_in_range upt_conv_Cons mod_simps del: upt_Suc)
qed

text \<open>
  Claim C9.  A pool of \<open>N \<ge> 1\<close> proxies with the cursor at 0 and no mutation in between:
  \<open>N\<close> consecutive calls of \<^verbatim>\<open>get_next_proxy\<close> return the proxies, each once, in insertion
  order; the pool is then back in its starting state, and the next call returns the first
  proxy again.  On an empty pool the getter returns \<^verbatim>\<open>None\<close> and raises nothing.
\<close>

theorem get_next_proxy_round_robin:
  "(ps \<noteq> [] \<longrightarrow>
      fst (get_next_proxy_calls (length ps) \<lparr>proxies = ps, current_index = 0\<rparr>) =
        map (\<lambda>p. Inr (Some p)) ps
    \<and> snd (get_next_proxy_calls (length ps) \<lparr>proxies = ps, current_index = 0\<rparr>) =
        \<lparr>proxies = ps, current_index = 0\<rparr>
    \<and> fst (get_next_proxy_calls (Suc (length ps)) \<lparr>proxies = ps, current_index = 0\<rparr>) =
        map (\<lambda>p. Inr (Some p)) ps @ [Inr (Some (hd ps))])
   \<and> get_next_proxy \<lparr>proxies = [], current_index = i\<rparr> =
        (Inr None, \<lparr>proxies = [], current_index = i\<rparr>)"
proof -
  have empty: "get_next_proxy \<lparr>proxies = [], current_index = i\<rparr> =
        (Inr None, \<lparr>proxies = [], current_index = i\<rparr>)"
    by (simp add: get_next_proxy_def)
  have full: "fst (get_next_proxy_calls (length ps) \<lparr>proxies = ps, current_index = 0\<rparr>) =
        map (\<lambda>p. Inr (Some p)) ps
    \<and> snd (get_next_proxy_calls (length ps) \<lparr>proxies = ps, current_index = 0\<rparr>) =
        \<lparr>proxies = ps, current_index = 0\<rparr>
    \<and> fst (get_next_proxy_calls (Suc (length ps)) \<lparr>proxies = ps, current_index = 0\<rparr>) =
        map (\<lambda>p. Inr (Some p)) ps @ [Inr (Some (hd ps))]" if ne: "ps \<noteq> []"
  proof -
    from ne have pos: "0 < length ps" by simp
    have idx: "map (\<lambda>j. (Inr (Some (ps ! (j mod length ps))) :: py_error + ProxyInfo option)) [0..<length ps] =
               map (\<lambda>p. Inr (Some p)) ps"
      by (rule nth_equalityI) simp_all
    have a: "get_next_proxy_calls (length ps) \<lparr>proxies = ps, current_index = 0\<rparr> =
               (map (\<lambda>p. Inr (Some p)) ps, \<lparr>proxies = ps, current_index = 0\<rparr>)"
      using get_next_proxy_calls_cycle [OF pos, of "length ps"] idx by simp
    have b: "get_next_proxy_calls (Suc (length ps)) \<lparr>proxies = ps, current_index = 0\<rparr> =
               (map (\<lambda>p. Inr (Some p)) ps @ [Inr (Some (hd ps))],
                \<lparr>proxies = ps, current_index = Suc (length ps) mod length ps\<rparr>)"
      using get_next_proxy_calls_cycle [OF pos, of "Suc (length ps)"] idx pos
      by (simp add: hd_conv_nth ne)
    show ?thesis using a b by simp
  qed
  show ?thesis using empty full by blast
qed

theorem get_next_proxy_round_robin_witness:
  "[example_proxy ''a'', example_proxy ''b'', example_proxy ''c''] \<noteq> []
   \<and> fst (get_next_proxy_calls 4
        \<lparr>proxies = [example_proxy ''a'', example_proxy ''b'', example_proxy ''c''], current_index = 0\<rparr>) =
       [Inr (Some (example_proxy ''a'')), Inr (Some (example_proxy ''b'')),
        Inr (Some (example_proxy ''c'')), Inr (Some (example_proxy ''a''))]"
  using get_next_proxy_round_robin
    [of "[example_proxy ''a'', example_proxy ''b'', example_proxy ''c'']" 0]
  by (simp add: numeral_Bit0 numeral_Bit1)

section \<open>Properties of the send queue\<close>

lemma sleeps_at_append [simp]: "sleeps_at s (a @ b) = sleeps_at s a @ sleeps_at s b"
  by (induction s a rule: sleeps_at.induct) simp_all
lemma send_attempts_append [simp]: "send_attempts (a @ b) = send_attempts a @ send_attempts b"
  by (induction a rule: send_attempts.induct) simp_all
lemma puts_append [simp]: "puts (a @ b) = puts a @ puts b"
  by (induction a rule: puts.induct) simp_all
lemma logs_append [simp]: "logs (a @ b) = logs a @ logs b"
  by (induction a rule: logs.induct) simp_all

lemma get_flood_control_queue: "get_flood_control n q = (fc, q') \<Longrightarrow> queue q' = queue q"
  by (auto simp: get_flood_control_def split: option.splits)

lemma flood_gate_proj [simp]:
  "sleeps_at ErrorRetry (flood_gate cfg env fc) = []"
  "sleeps_at ClientRetry (flood_gate cfg env fc) = []"
  "sleeps_at FloodRetry (flood_gate cfg env fc) = []"
  "send_attempts (flood_gate cfg env fc) = []"
  "puts (flood_gate cfg env fc) = []"
  "LogMaxRetriesExceeded \<notin> set (logs (flood_gate cfg env fc))"
  by (simp_all add: flood_gate_def Let_def)

text \<open>What the generic-error branch does in one call.\<close>

lemma send_message_RaisedOther:
  assumes "active_client env = Some c" "result env = RaisedOther"
  obtains ev q' where "send_message cfg env t q = (ev, q')"
    and "send_attempts ev = [t]"
    and "retry_count t < max_retries t \<Longrightarrow>
           sleeps_at ErrorRetry ev = [2 powi (retry_count t + 1)]
           \<and> puts ev = [t\<lparr>retry_count := retry_count t + 1\<rparr>]
           \<and> queue q' = queue q @ [t\<lparr>retry_count := retry_count t + 1\<rparr>]"
    and "\<not> retry_count t < max_retries t \<Longrightarrow>
           sleeps_at ErrorRetry ev = [] \<and> puts ev = [] \<and> queue q' = queue q"
  using assms
  by (cases "send_message cfg env t q")
     (auto simp add: send_message_def Let_def retry_backoff_def
           split: prod.splits option.splits if_splits dest: get_flood_control_queue)

lemma process_queue_no_task: "queue q = [] \<Longrightarrow> process_queue cfg envs q = ([], q)"
  by (cases envs) simp_all

lemma process_queue_single:
  assumes "queue q = [t]" "send_message cfg env t (q\<lparr>queue := []\<rparr>) = (ev, q')"
    "process_queue cfg envs q' = (evs, q'')"
  shows "process_queue cfg (env # envs) q = (ev @ evs, q'')"
  using assms by simp


lemma all_fail_run:
  assumes "\<forall>e\<in>set envs. active_client e \<noteq> None \<and> result e = RaisedOther"
    and "queue q = [t]"
    and "retry_count t \<le> max_retries t"
    and "nat (max_retries t - retry_count t) = n"
    and "n < length envs"
  shows "sleeps_at ErrorRetry (fst (process_queue cfg envs q)) =
           map (\<lambda>k. 2 powi (retry_count t + int k)) [1..<Suc n]
       \<and> map retry_count (send_attempts (fst (process_queue cfg envs q))) =
           map (\<lambda>k. retry_count t + int k) [0..<Suc n]
       \<and> map retry_count (puts (fst (process_queue cfg envs q))) =
           map (\<lambda>k. retry_count t + int k) [1..<Suc n]
       \<and> queue (snd (process_queue cfg envs q)) = []"
  using assms
proof (induction n arbitrary: envs q t)
  case 0
  then obtain env rest where envs: "envs = env # rest"
    by (cases envs) auto
  from 0 envs obtain c where c: "active_client env = Some c" and r: "result env = RaisedOther"
    by auto
  from 0 have cap: "\<not> retry_count t < max_retries t" by simp
  obtain ev q' where step: "send_message cfg env t (q\<lparr>queue := []\<rparr>) = (ev, q')"
    and att: "send_attempts ev = [t]"
    and stop: "sleeps_at ErrorRetry ev = [] \<and> puts ev = [] \<and> queue q' = queue (q\<lparr>queue := []\<rparr>)"
    using send_message_RaisedOther [OF c r, of cfg t "q\<lparr>queue := []\<rparr>"] cap by metis
  have "process_queue cfg envs q = (ev @ [], q')"
    unfolding envs
    by (rule process_queue_single [OF \<open>queue q = [t]\<close> step]) (simp add: process_queue_no_task stop)
  then show ?case using att stop by simp
next
  case (Suc n)
  then obtain env rest where envs: "envs = env # rest"
    by (cases envs) auto
  from Suc.prems envs obtain c where c: "active_client env = Some c" and r: "result env = RaisedOther"
    by auto
  from Suc.prems have below: "retry_count t < max_retries t" by simp
  define t' where "t' = t\<lparr>retry_count := retry_count t + 1\<rparr>"
  obtain ev q' where step: "send_message cfg env t (q\<lparr>queue := []\<rparr>) = (ev, q')"
    and att: "send_attempts ev = [t]"
    and go: "sleeps_at ErrorRetry ev = [2 powi (retry_count t + 1)] \<and> puts ev = [t']
             \<and> queue q' = queue (q\<lparr>queue := []\<rparr>) @ [t']"
    using send_message_RaisedOther [OF c r, of cfg t "q\<lparr>queue := []\<rparr>"] below
    unfolding t'_def by metis
  have q': "queue q' = [t']" using go by simp
  have IH: "sleeps_at ErrorRetry (fst (process_queue cfg rest q')) =
           map (\<lambda>k. 2 powi (retry_count t' + int k)) [1..<Suc n]
       \<and> map retry_count (send_attempts (fst (process_queue cfg rest q'))) =
           map (\<lambda>k. retry_count t' + int k) [0..<Suc n]
       \<and> map retry_count (puts (fst (process_queue cfg rest q'))) =
           map (\<lambda>k. retry_count t' + int k) [1..<Suc n]
       \<and> queue (snd (process_queue cfg rest q')) = []"
  proof (rule Suc.IH [OF _ q'])
    show "\<forall>e\<in>set rest. active_client e \<noteq> None \<and> result e = RaisedOther"
      using Suc.prems(1) envs by simp
    show "retry_count t' \<le> max_retries t'" using below by (simp add: t'_def)
    show "nat (max_retries t' - retry_count t') = n" using Suc.prems(4) by (simp add: t'_def)
    show "n < length rest" using Suc.prems(5) envs by simp
  qed
  have run: "process_queue cfg envs q =
               (ev @ fst (process_queue cfg rest q'), snd (process_queue cfg rest q'))"
    unfolding envs
    by (rule process_queue_single [OF \<open>queue q = [t]\<close> step]) simp
  have shift: "map (\<lambda>k. f (retry_count t' + int k)) [a..<Suc n] =
               map (\<lambda>k. f (retry_count t + int k)) [Suc a..<Suc (Suc n)]" for f :: "int \<Rightarrow> 'b" and a
    unfolding map_Suc_upt [symmetric] by (simp add: t'_def add.assoc del: upt_Suc)
  have s1: "[1..<Suc (Suc n)] = 1 # [Suc 1..<Suc (Suc n)]"
    by (simp add: upt_conv_Cons del: upt_Suc)
  have s0: "[0..<Suc (Suc n)] = 0 # 1 # [Suc 1..<Suc (Suc n)]"
    by (simp add: upt_conv_Cons del: upt_Suc)
  show ?case
    unfolding run fst_conv snd_conv
    using IH att go shift [of "\<lambda>x. 2 powi x" 1] shift [of "\<lambda>x. x" 1] shift [of "\<lambda>x. x" 0]
    by (simp add: s1 upt_conv_Cons t'_def del: upt_Suc)
qed


text \<open>
  Claim C2.  A queue that holds one task with \<^verbatim>\<open>retry_count = 0\<close> and
  \<^verbatim>\<open>max_retries = 3\<close>, every send of which raises a generic error: the task is sent once
  and retried three times (the sends carry retry counts 0, 1, 2, 3), the sleeps before the
  three re-enqueues are 2, 4 and 8 seconds, the task is put back exactly three times, and
  after the last failure the queue is empty: there is no fourth retry, however many more
  worker rounds follow.
\<close>

theorem generic_error_three_retries:
  assumes "\<forall>e\<in>set envs. active_client e \<noteq> None \<and> result e = RaisedOther"
    and "4 \<le> length envs"
    and "queue q = [t]"
    and "retry_count t = 0"
    and "max_retries t = 3"
  shows "sleeps_at ErrorRetry (fst (process_queue cfg envs q)) = [2, 4, 8]
       \<and> map retry_count (send_attempts (fst (process_queue cfg envs q))) = [0, 1, 2, 3]
       \<and> map retry_count (puts (fst (process_queue cfg envs q))) = [1, 2, 3]
       \<and> queue (snd (process_queue cfg envs q)) = []"
proof -
  have n: "nat (max_retries t - retry_count t) = 3" using assms by simp
  have "[1..<Suc 3] = [1, 2, 3]" "[0..<Suc 3] = [0, 1, 2, 3]"
    by (simp_all add: upt_conv_Cons del: upt_Suc)
  then show ?thesis
    using all_fail_run [OF assms(1) assms(3) _ n, of cfg] assms by simp
qed

theorem generic_error_three_retries_witness:
  "sleeps_at ErrorRetry (fst (process_queue FloodControlConfig_default
       [failing_env, failing_env, failing_env, failing_env, failing_env]
       (add_message example_task MessageQueue_init))) = [2, 4, 8]
   \<and> map retry_count (send_attempts (fst (process_queue FloodControlConfig_default
       [failing_env, failing_env, failing_env, failing_env, failing_env]
       (add_message example_task MessageQueue_init)))) = [0, 1, 2, 3]"
  using generic_error_three_retries
     [where envs = "[failing_env, failing_env, failing_env, failing_env, failing_env]"
        and q = "add_message example_task MessageQueue_init" and t = example_task
        and cfg = FloodControlConfig_default]
  by (simp add: failing_env_def example_task_def MessageTask_init_def add_message_def MessageQueue_init_def)

text \<open>
  Claim C1 describes what the handler of the rate-limit error is written to do.  The code
  does none of it: the handler's first statement reads \<^verbatim>\<open>e.value\<close>, which the exception
  does not have, and the \<^verbatim>\<open>AttributeError\<close> leaves the handler.  So when the send raises
  the rate-limit error, whatever wait it carries and whatever the retry count, the task is
  not put back, nothing is slept for a retry, \<^verbatim>\<open>flood_wait_until\<close> of the session is what it
  was, "Max retries exceeded" is not logged, and the only trace is the entry
  "Error in message sending".
\<close>

theorem flood_wait_not_handled:
  assumes "active_client env = Some c" and "result env = RaisedFloodWait e"
  shows "case send_message cfg env t q of (ev, q') \<Rightarrow>
           puts ev = [] \<and> queue q' = queue q
         \<and> sleeps_at FloodRetry ev = []
         \<and> map_option flood_wait_until (flood_controls q' (session_name t)) =
             Some (flood_wait_until (fst (get_flood_control (session_name t) q)))
         \<and> LogMaxRetriesExceeded \<notin> set (logs ev)
         \<and> LogErrorInMessageSending \<in> set (logs ev)
         \<and> send_attempts ev = [t]"
proof -
  obtain fc q1 where g: "get_flood_control (session_name t) q = (fc, q1)"
    by (cases "get_flood_control (session_name t) q")
  have q1: "queue q1 = queue q" using g by (rule get_flood_control_queue)
  have fc: "flood_controls q1 (session_name t) = Some fc"
    using g by (auto simp add: get_flood_control_def split: option.splits)
  have sm: "send_message cfg env t q =
              (flood_gate cfg env fc @ [SendAttempt t, Log LogErrorInMessageSending], q1)"
    using assms g by (simp add: send_message_def flood_wait_value_def)
  show ?thesis
    unfolding sm prod.case using q1 fc g by simp
qed

theorem flood_wait_not_handled_witness:
  "puts (fst (send_message FloodControlConfig_default flood_env example_task MessageQueue_init)) = []
   \<and> queue (snd (send_message FloodControlConfig_default flood_env example_task MessageQueue_init)) = []
   \<and> map_option flood_wait_until
        (flood_controls (snd (send_message FloodControlConfig_default flood_env example_task MessageQueue_init))
           ''alice'') = Some 0
   \<and> fst (send_message FloodControlConfig_default flood_env example_task MessageQueue_init) =
       [SendAttempt example_task, Log LogErrorInMessageSending]"
  using flood_wait_not_handled [where env = flood_env and c = "\<lparr>connected = True\<rparr>"
          and e = "\<lparr>seconds = 10\<rparr>" and t = example_task and cfg = FloodControlConfig_default
          and q = MessageQueue_init]
  by (simp add: send_message_def flood_wait_value_def get_flood_control_def flood_gate_def
        flood_env_def example_task_def MessageTask_init_def MessageQueue_init_def
        FloodControlConfig_default_def FloodControl_init_def Let_def)

lemma send_message_puts:
  "send_message cfg env t q = (ev, q') \<Longrightarrow>
     queue q' = queue q @ puts ev
   \<and> (puts ev = [] \<or> puts ev = [t\<lparr>retry_count := retry_count t + 1\<rparr>] \<and> retry_count t < max_retries t)"
  by (auto simp add: send_message_def Let_def retry_backoff_def flood_wait_value_def
           split: prod.splits option.splits if_splits send_result.splits dest: get_flood_control_queue)

lemma process_queue_retry_invariant:
  assumes "\<forall>t\<in>set (queue q). retry_count t \<le> max_retries t"
  shows "(\<forall>t\<in>set (puts (fst (process_queue cfg envs q))). retry_count t \<le> max_retries t)
       \<and> (\<forall>t\<in>set (queue (snd (process_queue cfg envs q))). retry_count t \<le> max_retries t)"
  using assms
proof (induction envs arbitrary: q)
  case Nil
  then show ?case by simp
next
  case (Cons env envs)
  note inv = Cons.prems
  show ?case
  proof (cases "queue q")
    case Nil
    then show ?thesis using inv by simp
  next
    case head: (Cons t rest)
    obtain ev q' where step: "send_message cfg env t (q\<lparr>queue := rest\<rparr>) = (ev, q')"
      by (cases "send_message cfg env t (q\<lparr>queue := rest\<rparr>)")
    obtain evs q'' where run: "process_queue cfg envs q' = (evs, q'')"
      by (cases "process_queue cfg envs q'")
    have pq: "process_queue cfg (env # envs) q = (ev @ evs, q'')"
      using head step run by simp
    have qq: "queue q' = rest @ puts ev"
      and alt: "puts ev = [] \<or> puts ev = [t\<lparr>retry_count := retry_count t + 1\<rparr>] \<and> retry_count t < max_retries t"
      using send_message_puts [OF step] by simp_all
    have ev_ok: "\<forall>t'\<in>set (puts ev). retry_count t' \<le> max_retries t'"
      using alt by auto
    have rest_ok: "\<forall>t'\<in>set rest. retry_count t' \<le> max_retries t'"
      using inv head by simp
    have "\<forall>t'\<in>set (queue q'). retry_count t' \<le> max_retries t'"
      unfolding qq using rest_ok ev_ok by auto
    from Cons.IH [OF this] have
      "(\<forall>t\<in>set (puts evs). retry_count t \<le> max_retries t)
       \<and> (\<forall>t\<in>set (queue q''). retry_count t \<le> max_retries t)"
      by (simp add: run)
    then show ?thesis
      unfolding pq using ev_ok by auto
  qed
qed

text \<open>
  Claim C3.  One call of \<^verbatim>\<open>_send_message\<close>, whatever the branch (client missing, rate
  limit, generic error, success): the queue grows by exactly the tasks the call puts back,
  which is either nothing or the task itself with \<^verbatim>\<open>retry_count\<close> one higher; a task is put
  back only when its count was below \<^verbatim>\<open>max_retries\<close>, so the new count does not exceed the
  cap; a task whose count has reached the cap is never put back.  (The client-missing and
  generic-error branches put back below the cap; the rate-limit branch never puts back.)
  Over any run of the worker, if no queued task exceeds its cap at the start, then no task
  put back and no task left in the queue does.
\<close>

theorem retry_count_bounded:
  "(case send_message cfg env t q of (ev, q') \<Rightarrow>
      queue q' = queue q @ puts ev
    \<and> (puts ev = [] \<or> puts ev = [t\<lparr>retry_count := retry_count t + 1\<rparr>])
    \<and> (\<forall>t'\<in>set (puts ev). retry_count t < max_retries t \<and> retry_count t' = retry_count t + 1
          \<and> max_retries t' = max_retries t \<and> retry_count t' \<le> max_retries t')
    \<and> (max_retries t \<le> retry_count t \<longrightarrow> puts ev = [] \<and> queue q' = queue q))
   \<and> ((\<forall>t\<in>set (queue q). retry_count t \<le> max_retries t) \<longrightarrow>
       (\<forall>t\<in>set (puts (fst (process_queue cfg envs q))). retry_count t \<le> max_retries t)
     \<and> (\<forall>t\<in>set (queue (snd (process_queue cfg envs q))). retry_count t \<le> max_retries t))"
proof (rule conjI)
  obtain ev q' where step: "send_message cfg env t q = (ev, q')"
    by (cases "send_message cfg env t q")
  have qq: "queue q' = queue q @ puts ev"
    and alt: "puts ev = [] \<or> puts ev = [t\<lparr>retry_count := retry_count t + 1\<rparr>] \<and> retry_count t < max_retries t"
    using send_message_puts [OF step] by simp_all
  have a: "puts ev = [] \<or> puts ev = [t\<lparr>retry_count := retry_count t + 1\<rparr>]"
    using alt by blast
  have b: "\<forall>t'\<in>set (puts ev). retry_count t < max_retries t \<and> retry_count t' = retry_count t + 1
          \<and> max_retries t' = max_retries t \<and> retry_count t' \<le> max_retries t'"
    using alt by auto
  have c: "max_retries t \<le> retry_count t \<longrightarrow> puts ev = [] \<and> queue q' = queue q"
    using alt qq by auto
  show "case send_message cfg env t q of (ev, q') \<Rightarrow>
      queue q' = queue q @ puts ev
    \<and> (puts ev = [] \<or> puts ev = [t\<lparr>retry_count := retry_count t + 1\<rparr>])
    \<and> (\<forall>t'\<in>set (puts ev). retry_count t < max_retries t \<and> retry_count t' = retry_count t + 1
          \<and> max_retries t' = max_retries t \<and> retry_count t' \<le> max_retries t')
    \<and> (max_retries t \<le> retry_count t \<longrightarrow> puts ev = [] \<and> queue q' = queue q)"
    unfolding step prod.case using qq a b c by (intro conjI)
next
  show "(\<forall>t\<in>set (queue q). retry_count t \<le> max_retries t) \<longrightarrow>
       (\<forall>t\<in>set (puts (fst (process_queue cfg envs q))). retry_count t \<le> max_retries t)
     \<and> (\<forall>t\<in>set (queue (snd (process_queue cfg envs q))). retry_count t \<le> max_retries t)"
    using process_queue_retry_invariant [of q cfg envs] by (intro impI)
qed

theorem retry_count_bounded_witness:
  "puts (fst (send_message FloodControlConfig_default no_client_env example_task MessageQueue_init)) =
     [example_task\<lparr>retry_count := 1\<rparr>]
   \<and> puts (fst (send_message FloodControlConfig_default failing_env
                (example_task\<lparr>retry_count := 3\<rparr>) MessageQueue_init)) = []
   \<and> puts (fst (send_message FloodControlConfig_default flood_env example_task MessageQueue_init)) = []
   \<and> map retry_count (puts (fst (process_queue FloodControlConfig_default
        [no_client_env, flood_env, failing_env, failing_env, failing_env]
        (add_message example_task MessageQueue_init)))) = [1]
   \<and> queue (snd (process_queue FloodControlConfig_default
        [no_client_env, flood_env, failing_env, failing_env, failing_env]
        (add_message example_task MessageQueue_init))) = []"
  using retry_count_bounded [where cfg = FloodControlConfig_default and env = no_client_env
          and t = example_task and q = MessageQueue_init
          and envs = "[no_client_env, flood_env, failing_env, failing_env, failing_env]"]
        retry_count_bounded [where cfg = FloodControlConfig_default and env = failing_env
          and t = "example_task\<lparr>retry_count := 3\<rparr>"
          and q = "add_message example_task MessageQueue_init"
          and envs = "[no_client_env, flood_env, failing_env, failing_env, failing_env]"]
  by (simp add: send_message_def get_flood_control_def flood_gate_def retry_backoff_def
        flood_wait_value_def no_client_env_def flood_env_def failing_env_def example_task_def
        add_message_def MessageTask_init_def MessageQueue_init_def FloodControlConfig_default_def
        FloodControl_init_def Let_def)

section \<open>Properties of the rule scheduler\<close>

lemma task_key_spec_as_daily [simp]: "task_key (spec_as_daily r) now = task_key r now"
  by (simp add: task_key_def spec_as_daily_def)

lemma check_rule_spec_as_daily:
  "check_rule now (spec_as_daily r) tasks = check_rule now r tasks"
  by (auto simp add: check_rule_def spec_as_daily_def task_key_def Let_def)

lemma check_scheduled_rules_spec_as_daily:
  "map rule_id (fst (check_scheduled_rules now (map spec_as_daily rs) tasks)) =
     map rule_id (fst (check_scheduled_rules now rs tasks))
   \<and> snd (check_scheduled_rules now (map spec_as_daily rs) tasks) =
     snd (check_scheduled_rules now rs tasks)"
proof (induction rs arbitrary: tasks)
  case Nil
  then show ?case by simp
next
  case (Cons r rs)
  obtain b tasks' where one: "check_rule now r tasks = (b, tasks')"
    by (cases "check_rule now r tasks")
  have id: "rule_id (spec_as_daily r) = rule_id r"
    by (simp add: spec_as_daily_def)
  show ?case
    using Cons.IH [of tasks'] one id
    by (auto simp add: check_rule_spec_as_daily split: prod.splits)
qed

lemma schedule_loop_spec_as_daily:
  "map (map rule_id) (fst (schedule_loop (map (\<lambda>(now, rs). (now, map spec_as_daily rs)) ticks) tasks)) =
     map (map rule_id) (fst (schedule_loop ticks tasks))
   \<and> snd (schedule_loop (map (\<lambda>(now, rs). (now, map spec_as_daily rs)) ticks) tasks) =
     snd (schedule_loop ticks tasks)"
proof (induction ticks arbitrary: tasks)
  case Nil
  then show ?case by simp
next
  case (Cons tk ticks)
  obtain now rs where tk: "tk = (now, rs)" by (cases tk)
  obtain ex tasks' where one: "check_scheduled_rules now rs tasks = (ex, tasks')"
    by (cases "check_scheduled_rules now rs tasks")
  obtain ex2 tasks2 where two: "check_scheduled_rules now (map spec_as_daily rs) tasks = (ex2, tasks2)"
    by (cases "check_scheduled_rules now (map spec_as_daily rs) tasks")
  have eq: "map rule_id ex2 = map rule_id ex" "tasks2 = tasks'"
    using check_scheduled_rules_spec_as_daily [of now rs tasks] one two by simp_all
  show ?case
    using Cons.IH [of tasks'] one two eq
    by (auto simp add: tk split: prod.splits)
qed

text \<open>
  Claim C8.  A rule with \<^verbatim>\<open>repeat_type\<close> \<^verbatim>\<open>weekly\<close> or \<^verbatim>\<open>monthly\<close> is decided exactly
  as the same rule with \<^verbatim>\<open>daily\<close>: it executes at a tick if and only if it is enabled, of
  type \<^verbatim>\<open>scheduled\<close>, and the tick's time of day is one of its scheduled times, and the
  markers are left alone.  The weekday and the day of the month of the tick are never read.
  Over a whole run of the loop, replacing every \<^verbatim>\<open>weekly\<close> and \<^verbatim>\<open>monthly\<close> by \<^verbatim>\<open>daily\<close>
  changes neither which rules execute at which tick nor the markers.
\<close>

theorem weekly_monthly_as_daily:
  "check_rule now (r\<lparr>trigger := (trigger r)\<lparr>repeat_type := Some ''weekly''\<rparr>\<rparr>) tasks =
     check_rule now (r\<lparr>trigger := (trigger r)\<lparr>repeat_type := Some ''daily''\<rparr>\<rparr>) tasks
   \<and> check_rule now (r\<lparr>trigger := (trigger r)\<lparr>repeat_type := Some ''monthly''\<rparr>\<rparr>) tasks =
     check_rule now (r\<lparr>trigger := (trigger r)\<lparr>repeat_type := Some ''daily''\<rparr>\<rparr>) tasks
   \<and> check_rule now (r\<lparr>trigger := (trigger r)\<lparr>repeat_type := Some ''daily''\<rparr>\<rparr>) tasks =
     (is_enabled r \<and> rule_type r = Some ''scheduled''
        \<and> current_time now \<in> set (case scheduled_times (trigger r) of None \<Rightarrow> [] | Some ts \<Rightarrow> ts),
      tasks)
   \<and> check_rule (now\<lparr>current_day := d, current_date := m\<rparr>) r tasks = check_rule now r tasks
   \<and> map (map rule_id)
        (fst (schedule_loop (map (\<lambda>(now, rs). (now, map spec_as_daily rs)) ticks) tasks)) =
       map (map rule_id) (fst (schedule_loop ticks tasks))
   \<and> snd (schedule_loop (map (\<lambda>(now, rs). (now, map spec_as_daily rs)) ticks) tasks) =
       snd (schedule_loop ticks tasks)"
proof -
  have a: "check_rule now (r\<lparr>trigger := (trigger r)\<lparr>repeat_type := Some ''weekly''\<rparr>\<rparr>) tasks =
     check_rule now (r\<lparr>trigger := (trigger r)\<lparr>repeat_type := Some ''daily''\<rparr>\<rparr>) tasks"
    by (cases "scheduled_times (trigger r)") (auto simp add: check_rule_def task_key_def Let_def)
  have b: "check_rule now (r\<lparr>trigger := (trigger r)\<lparr>repeat_type := Some ''monthly''\<rparr>\<rparr>) tasks =
     check_rule now (r\<lparr>trigger := (trigger r)\<lparr>repeat_type := Some ''daily''\<rparr>\<rparr>) tasks"
    by (cases "scheduled_times (trigger r)") (auto simp add: check_rule_def task_key_def Let_def)
  have c: "check_rule now (r\<lparr>trigger := (trigger r)\<lparr>repeat_type := Some ''daily''\<rparr>\<rparr>) tasks =
     (is_enabled r \<and> rule_type r = Some ''scheduled''
        \<and> current_time now \<in> set (case scheduled_times (trigger r) of None \<Rightarrow> [] | Some ts \<Rightarrow> ts),
      tasks)"
    by (cases "scheduled_times (trigger r)") (auto simp add: check_rule_def Let_def)
  have d: "check_rule (now\<lparr>current_day := d, current_date := m\<rparr>) r tasks = check_rule now r tasks"
    unfolding check_rule_def task_key_def by (simp cong: if_cong)
  show ?thesis
    using a b c d schedule_loop_spec_as_daily [of ticks tasks] by blast
qed

theorem weekly_monthly_as_daily_witness:
  "map (map rule_id) (fst (schedule_loop
      [(tick_at ''09:00'' 0 1 0, [weekly_rule]), (tick_at ''09:00'' 1 2 86400, [weekly_rule]),
       (tick_at ''09:01'' 1 2 86460, [weekly_rule])] Map.empty)) = [[8], [8], []]
   \<and> check_rule (tick_at ''09:00'' 3 17 0) weekly_rule Map.empty = (True, Map.empty)"
  using weekly_monthly_as_daily [where r = weekly_rule and now = "tick_at ''09:00'' 3 17 0"
          and tasks = Map.empty and d = 0 and m = 1
          and ticks = "[(tick_at ''09:00'' 0 1 0, [weekly_rule]), (tick_at ''09:00'' 1 2 86400, [weekly_rule]),
                        (tick_at ''09:01'' 1 2 86460, [weekly_rule])]"]
  by (simp add: weekly_rule_def tick_at_def spec_as_daily_def check_rule_def Let_def)

lemma check_rule_keeps_markers:
  "tasks k \<noteq> None \<Longrightarrow> snd (check_rule now r tasks) k \<noteq> None"
  by (auto simp add: check_rule_def Let_def)

lemma check_scheduled_rules_keeps_markers:
  "tasks k \<noteq> None \<Longrightarrow> snd (check_scheduled_rules now rs tasks) k \<noteq> None"
proof (induction rs arbitrary: tasks)
  case Nil
  then show ?case by simp
next
  case (Cons r rs)
  obtain b tasks' where one: "check_rule now r tasks = (b, tasks')"
    by (cases "check_rule now r tasks")
  have "tasks' k \<noteq> None"
    using check_rule_keeps_markers [where tasks = tasks and k = k and now = now and r = r]
      Cons.prems one by simp
  with Cons.IH [of tasks'] show ?case
    using one by (auto split: prod.splits)
qed

lemma schedule_loop_keeps_markers:
  "tasks k \<noteq> None \<Longrightarrow> snd (schedule_loop ticks tasks) k \<noteq> None"
proof (induction ticks arbitrary: tasks)
  case Nil
  then show ?case by simp
next
  case (Cons tk ticks)
  obtain now rs where tk: "tk = (now, rs)" by (cases tk)
  obtain ex tasks' where one: "check_scheduled_rules now rs tasks = (ex, tasks')"
    by (cases "check_scheduled_rules now rs tasks")
  have "tasks' k \<noteq> None"
    using check_scheduled_rules_keeps_markers [where tasks = tasks and k = k and now = now and rs = rs]
      Cons.prems one by simp
  with Cons.IH [of tasks'] show ?case
    using one by (auto simp add: tk split: prod.splits)
qed

lemma once_rule_blocked:
  assumes "repeat_type (trigger r) = Some ''once''" and "tasks (task_key r now) \<noteq> None"
  shows "\<not> fst (check_rule now r tasks)"
  using assms by (auto simp add: check_rule_def Let_def)

lemma once_rule_sets_marker:
  assumes "fst (check_rule now r tasks)" and "repeat_type (trigger r) = Some ''once''"
  shows "snd (check_rule now r tasks) (task_key r now) = Some (clock now + 86400)"
  using assms by (auto simp add: check_rule_def Let_def split: if_splits)

text \<open>
  Claim C7 says that the marker of a \<^verbatim>\<open>once\<close> rule expires after 24 hours.  In the code the
  marker is a key of \<^verbatim>\<open>scheduled_tasks\<close> and the test is whether the key is present; no
  tick removes a key, whether the sleeping task behind it is done or not.  So once such a
  rule has fired at a time of day, it does not fire at that time of day at any later tick
  of the run, whatever the clock shows.
\<close>

theorem once_marker_never_expires:
  assumes "fst (check_rule now r tasks)"
    and "repeat_type (trigger r) = Some ''once''"
    and "current_time later = current_time now"
  shows "\<not> fst (check_rule later r (snd (schedule_loop ticks (snd (check_rule now r tasks)))))"
proof -
  have key: "task_key r later = task_key r now"
    using assms(3) by (simp add: task_key_def)
  have "snd (check_rule now r tasks) (task_key r now) \<noteq> None"
    using once_rule_sets_marker [OF assms(1,2)] by simp
  then have "snd (schedule_loop ticks (snd (check_rule now r tasks))) (task_key r later) \<noteq> None"
    unfolding key
    using schedule_loop_keeps_markers
      [where tasks = "snd (check_rule now r tasks)" and k = "task_key r now" and ticks = ticks]
    by simp
  then show ?thesis
    by (rule once_rule_blocked [OF assms(2)])
qed

theorem once_marker_never_expires_witness:
  "fst (check_rule (tick_at ''09:00'' 0 1 0) once_rule Map.empty)
   \<and> task_done (tick_at ''09:00'' 2 3 172800) (0 + 86400)
   \<and> \<not> fst (check_rule (tick_at ''09:00'' 2 3 172800) once_rule
          (snd (schedule_loop [(tick_at ''09:01'' 0 1 60, [once_rule])]
             (snd (check_rule (tick_at ''09:00'' 0 1 0) once_rule Map.empty)))))"
proof -
  have fired: "fst (check_rule (tick_at ''09:00'' 0 1 0) once_rule Map.empty)"
    by (simp add: check_rule_def once_rule_def tick_at_def Let_def)
  have rt: "repeat_type (trigger once_rule) = Some ''once''"
    by (simp add: once_rule_def)
  have tm: "current_time (tick_at ''09:00'' 2 3 172800) = current_time (tick_at ''09:00'' 0 1 0)"
    by (simp add: tick_at_def)
  have dn: "task_done (tick_at ''09:00'' 2 3 172800) (0 + 86400)"
    by (simp add: task_done_def tick_at_def)
  show ?thesis
    using fired dn once_marker_never_expires [OF fired rt tm, of "[(tick_at ''09:01'' 0 1 60, [once_rule])]"]
    by simp
qed

section \<open>Properties of stopping a session\<close>

text \<open>
  The claim's "the persisted flag is false" does not hold for every stop.  When the
  database update raises (here: the database stays locked), the exception is logged and
  swallowed, the stop succeeds, and the flag is still true.  A second stop of the same name
  then finds it unregistered, returns false without touching the database, and the flag is
  true still.
\<close>

theorem stop_session_keeps_flag_counterexample:
  "fst (client_manager_stop_session db_locked_env ''alice'' running_system) =
     (True, [Disconnect 0, WarningDatabaseError, InfoStopped])
   \<and> db_is_active (snd (client_manager_stop_session db_locked_env ''alice'' running_system)) ''alice'' = Some True
   \<and> fst (stop_session db_locked_env ''alice'' running_system) =
     (True, [Disconnect 0, WarningDatabaseError, InfoStopped])
   \<and> db_is_active (snd (stop_session db_locked_env ''alice'' running_system)) ''alice'' = Some True
   \<and> fst (stop_session ok_env ''alice'' (snd (stop_session db_locked_env ''alice'' running_system))) =
     (False, [])
   \<and> db_is_active (snd (stop_session ok_env ''alice''
         (snd (stop_session db_locked_env ''alice'' running_system)))) ''alice'' = Some True"
  by (simp add: client_manager_stop_session_def stop_session_def disconnect_client_def update_database_def
        db_locked_env_def ok_env_def running_system_def loop_closed_def lower_char_def)

lemma stop_session_result:
  "stop_session env name st = ((ok, ev), st') \<Longrightarrow>
     ok = (active_sessions st name \<noteq> None)
   \<and> active_sessions st' = (active_sessions st)(name := None)
   \<and> clients st' = clients st
   \<and> (active_sessions st name = None \<longrightarrow> st' = st \<and> ev = [])
   \<and> (active_sessions st name \<noteq> None \<and> db_outcome env = Completes \<longrightarrow>
        db_is_active st' = db_set_inactive name (db_is_active st))
   \<and> (db_outcome env \<noteq> Completes \<longrightarrow> db_is_active st' = db_is_active st)"
  by (auto simp add: stop_session_def disconnect_client_def update_database_def
        split: option.splits prod.splits if_splits outcome.splits)

lemma stop_session_logs:
  assumes "stop_session env name st = ((ok, ev), st')" and "ok"
  shows "InfoStopped \<in> set ev"
    and "db_outcome env = Completes \<Longrightarrow> DebugDatabaseUpdated \<in> set ev"
    and "db_outcome env = Raises msg \<Longrightarrow>
           (if loop_closed msg then DebugDatabaseSkipped else WarningDatabaseError) \<in> set ev
           \<and> DebugDatabaseUpdated \<notin> set ev"
  using assms
  by (auto simp add: stop_session_def disconnect_client_def update_database_def
        split: option.splits prod.splits if_splits outcome.splits)

lemma db_set_inactive_not_active: "db_set_inactive name db name \<noteq> Some True"
  by (simp add: db_set_inactive_def split: option.splits)

lemma stop_session_disconnected:
  assumes "stop_session env name st = ((ok, ev), st')"
    and "active_sessions st name = Some ref" and "\<not> connected (client_store st ref)"
  shows "ok \<and> Disconnect ref \<notin> set ev \<and> WarningDisconnectError \<notin> set ev
       \<and> DebugAlreadyDisconnected \<in> set ev \<and> client_store st' = client_store st"
  using assms
  by (auto simp add: stop_session_def disconnect_client_def update_database_def
        split: outcome.splits if_splits)

lemma stop_session_connected:
  assumes "stop_session env name st = ((ok, ev), st')"
    and "active_sessions st name = Some ref" and "connected (client_store st ref)"
  shows "Disconnect ref \<in> set ev
       \<and> (disconnect_outcome env = Completes \<longrightarrow> \<not> connected (client_store st' ref))"
  using assms
  by (auto simp add: stop_session_def disconnect_client_def update_database_def
        split: outcome.splits if_splits)

lemma client_manager_stop_session_result:
  assumes "client_manager_stop_session env name st = ((ok, ev), st')"
  shows "\<exists>st1. stop_session env name st = ((ok, ev), st1)
          \<and> active_sessions st' = active_sessions st1 \<and> db_is_active st' = db_is_active st1
          \<and> (ok \<longrightarrow> clients st' name = None) \<and> (\<not> ok \<longrightarrow> st' = st1)"
  using assms
  by (cases "stop_session env name st")
     (auto simp add: client_manager_stop_session_def split: if_splits)

text \<open>
  Claim C6, as the code has it, for \<^verbatim>\<open>SessionManager.stop_session\<close> and for
  \<^verbatim>\<open>TelegramClientManager.stop_session\<close>.  After the call the name is not registered in
  \<^verbatim>\<open>active_sessions\<close> (the other names are as before); the result is true exactly when it
  was registered before, and then the name is gone from \<^verbatim>\<open>clients\<close> as well.  For a name
  that was not registered the call changes nothing at all and logs nothing.  When the name
  was registered and the database update completes, the persisted flag is not true
  afterwards; when the update raises, the stop still succeeds, the flags are what they
  were, and the failure is logged (as a warning, or as a debug entry when the message speaks
  of a closed loop).  A registered client that is already disconnected is not disconnected
  again and gives no disconnect warning, and the stop succeeds; a connected one is
  disconnected.  Stopping once more returns false and changes nothing.
\<close>

theorem stop_session_unregisters:
  "(case stop_session env name st of ((ok, ev), st') \<Rightarrow>
      active_sessions st' name = None
    \<and> active_sessions st' = (active_sessions st)(name := None)
    \<and> ok = (active_sessions st name \<noteq> None)
    \<and> (\<not> ok \<longrightarrow> st' = st \<and> ev = [])
    \<and> (ok \<and> db_outcome env = Completes \<longrightarrow>
          db_is_active st' name \<noteq> Some True \<and> DebugDatabaseUpdated \<in> set ev)
    \<and> (db_outcome env \<noteq> Completes \<or> \<not> ok \<longrightarrow> db_is_active st' = db_is_active st)
    \<and> (\<forall>msg. ok \<and> db_outcome env = Raises msg \<longrightarrow>
          (if loop_closed msg then DebugDatabaseSkipped else WarningDatabaseError) \<in> set ev
          \<and> DebugDatabaseUpdated \<notin> set ev)
    \<and> (ok \<longrightarrow> InfoStopped \<in> set ev)
    \<and> (\<forall>ref. active_sessions st name = Some ref \<and> \<not> connected (client_store st ref) \<longrightarrow>
          ok \<and> Disconnect ref \<notin> set ev \<and> WarningDisconnectError \<notin> set ev
          \<and> client_store st' = client_store st)
    \<and> (\<forall>ref. active_sessions st name = Some ref \<and> connected (client_store st ref) \<longrightarrow>
          Disconnect ref \<in> set ev
          \<and> (disconnect_outcome env = Completes \<longrightarrow> \<not> connected (client_store st' ref)))
    \<and> stop_session env' name st' = ((False, []), st'))
   \<and> (case client_manager_stop_session env name st of ((ok, ev), st') \<Rightarrow>
      active_sessions st' name = None
    \<and> active_sessions st' = (active_sessions st)(name := None)
    \<and> ok = (active_sessions st name \<noteq> None)
    \<and> (ok \<longrightarrow> clients st' name = None)
    \<and> (\<not> ok \<longrightarrow> st' = st \<and> ev = [])
    \<and> (ok \<and> db_outcome env = Completes \<longrightarrow>
          db_is_active st' name \<noteq> Some True \<and> DebugDatabaseUpdated \<in> set ev)
    \<and> (db_outcome env \<noteq> Completes \<or> \<not> ok \<longrightarrow> db_is_active st' = db_is_active st)
    \<and> (\<forall>msg. ok \<and> db_outcome env = Raises msg \<longrightarrow>
          (if loop_closed msg then DebugDatabaseSkipped else WarningDatabaseError) \<in> set ev
          \<and> DebugDatabaseUpdated \<notin> set ev)
    \<and> (\<forall>ref. active_sessions st name = Some ref \<and> \<not> connected (client_store st ref) \<longrightarrow>
          ok \<and> Disconnect ref \<notin> set ev \<and> WarningDisconnectError \<notin> set ev)
    \<and> (\<forall>ref. active_sessions st name = Some ref \<and> connected (client_store st ref) \<longrightarrow>
          Disconnect ref \<in> set ev))"
proof (rule conjI)
  obtain ok ev st' where r: "stop_session env name st = ((ok, ev), st')"
    by (cases "stop_session env name st") auto
  note res = stop_session_result [OF r]
  have reg: "active_sessions st' = (active_sessions st)(name := None)" using res by simp
  have none: "active_sessions st' name = None" using res by simp
  have okeq: "ok = (active_sessions st name \<noteq> None)" using res by simp
  have noop: "\<not> ok \<longrightarrow> st' = st \<and> ev = []" using res by simp
  have again: "stop_session env' name st' = ((False, []), st')"
    using none by (simp add: stop_session_def)
  have flag: "ok \<and> db_outcome env = Completes \<longrightarrow>
          db_is_active st' name \<noteq> Some True \<and> DebugDatabaseUpdated \<in> set ev"
    using res db_set_inactive_not_active [of name "db_is_active st"] stop_session_logs(2) [OF r]
    by auto
  have keep: "db_outcome env \<noteq> Completes \<or> \<not> ok \<longrightarrow> db_is_active st' = db_is_active st"
    using res by auto
  have logged: "\<forall>msg. ok \<and> db_outcome env = Raises msg \<longrightarrow>
          (if loop_closed msg then DebugDatabaseSkipped else WarningDatabaseError) \<in> set ev
          \<and> DebugDatabaseUpdated \<notin> set ev"
    using stop_session_logs(3) [OF r] by blast
  have stopped: "ok \<longrightarrow> InfoStopped \<in> set ev"
    using stop_session_logs(1) [OF r] by blast
  have idem: "\<forall>ref. active_sessions st name = Some ref \<and> \<not> connected (client_store st ref) \<longrightarrow>
          ok \<and> Disconnect ref \<notin> set ev \<and> WarningDisconnectError \<notin> set ev
          \<and> client_store st' = client_store st"
    using stop_session_disconnected [OF r] by blast
  have disc: "\<forall>ref. active_sessions st name = Some ref \<and> connected (client_store st ref) \<longrightarrow>
          Disconnect ref \<in> set ev
          \<and> (disconnect_outcome env = Completes \<longrightarrow> \<not> connected (client_store st' ref))"
    using stop_session_connected [OF r] by blast
  show "case stop_session env name st of ((ok, ev), st') \<Rightarrow>
      active_sessions st' name = None
    \<and> active_sessions st' = (active_sessions st)(name := None)
    \<and> ok = (active_sessions st name \<noteq> None)
    \<and> (\<not> ok \<longrightarrow> st' = st \<and> ev = [])
    \<and> (ok \<and> db_outcome env = Completes \<longrightarrow>
          db_is_active st' name \<noteq> Some True \<and> DebugDatabaseUpdated \<in> set ev)
    \<and> (db_outcome env \<noteq> Completes \<or> \<not> ok \<longrightarrow> db_is_active st' = db_is_active st)
    \<and> (\<forall>msg. ok \<and> db_outcome env = Raises msg \<longrightarrow>
          (if loop_closed msg then DebugDatabaseSkipped else WarningDatabaseError) \<in> set ev
          \<and> DebugDatabaseUpdated \<notin> set ev)
    \<and> (ok \<longrightarrow> InfoStopped \<in> set ev)
    \<and> (\<forall>ref. active_sessions st name = Some ref \<and> \<not> connected (client_store st ref) \<longrightarrow>
          ok \<and> Disconnect ref \<notin> set ev \<and> WarningDisconnectError \<notin> set ev
          \<and> client_store st' = client_store st)
    \<and> (\<forall>ref. active_sessions st name = Some ref \<and> connected (client_store st ref) \<longrightarrow>
          Disconnect ref \<in> set ev
          \<and> (disconnect_outcome env = Completes \<longrightarrow> \<not> connected (client_store st' ref)))
    \<and> stop_session env' name st' = ((False, []), st')"
    unfolding r prod.case
    by (intro conjI none reg okeq noop flag keep logged stopped idem disc again)
next
  obtain ok ev st' where c: "client_manager_stop_session env name st = ((ok, ev), st')"
    by (cases "client_manager_stop_session env name st") auto
  from c obtain st1 where r: "stop_session env name st = ((ok, ev), st1)"
    and as: "active_sessions st' = active_sessions st1" and db: "db_is_active st' = db_is_active st1"
    and cl: "ok \<longrightarrow> clients st' name = None" and same: "\<not> ok \<longrightarrow> st' = st1"
    using client_manager_stop_session_result [OF c] by blast
  note res = stop_session_result [OF r]
  have reg: "active_sessions st' = (active_sessions st)(name := None)" using res as by simp
  have none: "active_sessions st' name = None" using res as by simp
  have okeq: "ok = (active_sessions st name \<noteq> None)" using res by simp
  have noop: "\<not> ok \<longrightarrow> st' = st \<and> ev = []" using res same by simp
  have flag: "ok \<and> db_outcome env = Completes \<longrightarrow>
          db_is_active st' name \<noteq> Some True \<and> DebugDatabaseUpdated \<in> set ev"
    using res db db_set_inactive_not_active [of name "db_is_active st"] stop_session_logs(2) [OF r]
    by auto
  have keep: "db_outcome env \<noteq> Completes \<or> \<not> ok \<longrightarrow> db_is_active st' = db_is_active st"
    using res db by auto
  have logged: "\<forall>msg. ok \<and> db_outcome env = Raises msg \<longrightarrow>
          (if loop_closed msg then DebugDatabaseSkipped else WarningDatabaseError) \<in> set ev
          \<and> DebugDatabaseUpdated \<notin> set ev"
    using stop_session_logs(3) [OF r] by blast
  have idem: "\<forall>ref. active_sessions st name = Some ref \<and> \<not> connected (client_store st ref) \<longrightarrow>
          ok \<and> Disconnect ref \<notin> set ev \<and> WarningDisconnectError \<notin> set ev"
    using stop_session_disconnected [OF r] by blast
  have disc: "\<forall>ref. active_sessions st name = Some ref \<and> connected (client_store st ref) \<longrightarrow>
          Disconnect ref \<in> set ev"
    using stop_session_connected [OF r] by blast
  show "case client_manager_stop_session env name st of ((ok, ev), st') \<Rightarrow>
      active_sessions st' name = None
    \<and> active_sessions st' = (active_sessions st)(name := None)
    \<and> ok = (active_sessions st name \<noteq> None)
    \<and> (ok \<longrightarrow> clients st' name = None)
    \<and> (\<not> ok \<longrightarrow> st' = st \<and> ev = [])
    \<and> (ok \<and> db_outcome env = Completes \<longrightarrow>
          db_is_active st' name \<noteq> Some True \<and> DebugDatabaseUpdated \<in> set ev)
    \<and> (db_outcome env \<noteq> Completes \<or> \<not> ok \<longrightarrow> db_is_active st' = db_is_active st)
    \<and> (\<forall>msg. ok \<and> db_outcome env = Raises msg \<longrightarrow>
          (if loop_closed msg then DebugDatabaseSkipped else WarningDatabaseError) \<in> set ev
          \<and> DebugDatabaseUpdated \<notin> set ev)
    \<and> (\<forall>ref. active_sessions st name = Some ref \<and> \<not> connected (client_store st ref) \<longrightarrow>
          ok \<and> Disconnect ref \<notin> set ev \<and> WarningDisconnectError \<notin> set ev)
    \<and> (\<forall>ref. active_sessions st name = Some ref \<and> connected (client_store st ref) \<longrightarrow>
          Disconnect ref \<in> set ev)"
    unfolding c prod.case
    by (intro conjI none reg okeq cl noop flag keep logged idem disc)
qed

theorem stop_session_unregisters_witness:
  "active_sessions (snd (client_manager_stop_session ok_env ''alice'' running_system)) ''alice'' = None
   \<and> clients (snd (client_manager_stop_session ok_env ''alice'' running_system)) ''alice'' = None
   \<and> db_is_active (snd (client_manager_stop_session ok_env ''alice'' running_system)) ''alice'' = Some False
   \<and> fst (stop_session ok_env ''alice'' stopped_client_system) =
       (True, [DebugAlreadyDisconnected, DebugDatabaseUpdated, InfoStopped])
   \<and> fst (stop_session db_locked_env ''alice'' running_system) =
       (True, [Disconnect 0, WarningDatabaseError, InfoStopped])
   \<and> stop_session ok_env ''bob'' running_system = ((False, []), running_system)"
  using stop_session_unregisters [where env = ok_env and name = "''alice''" and st = running_system
          and env' = ok_env]
        stop_session_unregisters [where env = ok_env and name = "''alice''" and st = stopped_client_system
          and env' = ok_env]
        stop_session_unregisters [where env = db_locked_env and name = "''alice''" and st = running_system
          and env' = ok_env]
        stop_session_unregisters [where env = ok_env and name = "''bob''" and st = running_system
          and env' = ok_env]
  by (simp add: client_manager_stop_session_def stop_session_def disconnect_client_def
        update_database_def db_set_inactive_def ok_env_def db_locked_env_def running_system_def
        stopped_client_system_def loop_closed_def lower_char_def)

section \<open>Properties of the script engine\<close>

lemma sends_append [simp]: "sends (a @ b) = sends a @ sends b"
  by (induction a rule: sends.induct) simp_all

lemma sends_replicate_sleep [simp]: "sends (replicate k (ScriptSleep d)) = []"
  by (induction k) simp_all

lemma resolve_reply_events:
  "resolve_reply n meta sent = (ev, r) \<Longrightarrow> sends ev = [] \<and> map without_reply ev = ev"
  by (auto simp add: resolve_reply_def split: option.splits sum.splits)

lemma resolve_mentions_events:
  "resolve_mentions n amap ms = (ev, r) \<Longrightarrow>
     sends ev = [] \<and> map without_reply ev = ev \<and> (\<forall>k. ScriptLog (WarnReplyMissing n k) \<notin> set ev)"
proof (induction ms arbitrary: ev r)
  case Nil
  then show ?case by simp
next
  case (Cons m ms)
  obtain evs rest where rec: "resolve_mentions n amap ms = (evs, rest)"
    by (cases "resolve_mentions n amap ms")
  from Cons.IH [OF rec] Cons.prems rec show ?case
    by (auto split: sum.splits option.splits)
qed

lemma resolve_delay_events:
  "resolve_delay meta = (ev, r) \<Longrightarrow>
     sends ev = [] \<and> map without_reply ev = ev \<and> (\<forall>n k. ScriptLog (WarnReplyMissing n k) \<notin> set ev)"
  by (auto simp add: resolve_delay_def split: option.splits sum.splits)

lemma resolve_mentions_delay_events:
  assumes "resolve_mentions_delay n meta amap = (ev, r)"
  shows "sends ev = [] \<and> map without_reply ev = ev \<and> (\<forall>k. ScriptLog (WarnReplyMissing n k) \<notin> set ev)"
proof -
  obtain ev2 r2 where a: "resolve_mentions n amap (findall_mentions meta) = (ev2, r2)"
    by (cases "resolve_mentions n amap (findall_mentions meta)")
  obtain ev3 r3 where b: "resolve_delay meta = (ev3, r3)"
    by (cases "resolve_delay meta")
  from resolve_mentions_events [OF a] resolve_delay_events [OF b] assms a b show ?thesis
    by (auto simp add: resolve_mentions_delay_def split: sum.splits)
qed

lemma parse_directives_events:
  assumes "parse_directives n content amap sent = (ev, r)"
  shows "sends ev = [] \<and> map without_reply ev = ev"
proof (cases "fullwidth_colon \<in> set content")
  case False
  with assms show ?thesis by (simp add: parse_directives_def)
next
  case True
  obtain ev1 r1 where a: "resolve_reply n (fst (split_once fullwidth_colon content)) sent = (ev1, r1)"
    by (cases "resolve_reply n (fst (split_once fullwidth_colon content)) sent")
  obtain ev2 r2 where b: "resolve_mentions_delay n (fst (split_once fullwidth_colon content)) amap = (ev2, r2)"
    by (cases "resolve_mentions_delay n (fst (split_once fullwidth_colon content)) amap")
  from resolve_reply_events [OF a] resolve_mentions_delay_events [OF b] assms a b True show ?thesis
    by (auto simp add: parse_directives_def Let_def split: sum.splits)
qed

lemma parse_image_events:
  "parse_image env n content = (ev, r) \<Longrightarrow>
     sends ev = [] \<and> map without_reply ev = ev \<and> (\<forall>k. ScriptLog (WarnReplyMissing n k) \<notin> set ev)"
  by (auto simp add: parse_image_def split: option.splits prod.splits path_result.splits if_splits)

text \<open>The send writes at most the entry of its own line, and what it sends carries the reply id.\<close>

lemma send_line_result:
  assumes "send_line env n a ftext img r sent = (ev, fin, sent')"
  shows "(\<forall>e\<in>set (sends ev). reply_to e = r)
       \<and> (sent' = sent \<or> (\<exists>x. send_returns env = Some x \<and> sent' = sent(n \<mapsto> x)))
       \<and> (sends ev \<noteq> [] \<longrightarrow> (\<forall>x. send_returns env = Some x \<longrightarrow> sent' = sent(n \<mapsto> x)))
       \<and> (\<forall>k. ScriptLog (WarnReplyMissing n k) \<notin> set ev)"
  using assms
  by (auto simp add: send_line_def split: if_splits option.splits prod.splits)

lemma send_line_without_reply:
  "fst (send_line env n a ftext img None s1) = map without_reply (fst (send_line env n a ftext img r s2))
   \<and> fst (snd (send_line env n a ftext img None s1)) = fst (snd (send_line env n a ftext img r s2))"
  by (auto simp add: send_line_def split: if_splits option.splits prod.splits)

lemma finish_line_result:
  assumes "finish_line env n a content ms r sent = (ev, fin, sent')"
  shows "(\<forall>e\<in>set (sends ev). reply_to e = r)
       \<and> (sent' = sent \<or> (\<exists>x. send_returns env = Some x \<and> sent' = sent(n \<mapsto> x)))
       \<and> (sends ev \<noteq> [] \<longrightarrow> (\<forall>x. send_returns env = Some x \<longrightarrow> sent' = sent(n \<mapsto> x)))
       \<and> (\<forall>k. ScriptLog (WarnReplyMissing n k) \<notin> set ev)"
proof -
  obtain ev2 im where a: "parse_image env n content = (ev2, im)"
    by (cases "parse_image env n content")
  note pe = parse_image_events [OF a]
  show ?thesis
  proof (cases im)
    case (Inl e)
    with assms a pe show ?thesis
      by (auto simp add: finish_line_def Let_def)
  next
    case (Inr img)
    define ftext where "ftext = (case img of
        Some (image_path, image_caption) \<Rightarrow> strip (prefix_text ms @ image_caption)
      | None \<Rightarrow> strip (prefix_text ms @
           (case split_once fullwidth_colon content of (_, Some text_body) \<Rightarrow> text_body
            | (_, None) \<Rightarrow> content)))"
    obtain ev3 fin3 s3 where b: "send_line env n a ftext img r sent = (ev3, fin3, s3)"
      by (cases "send_line env n a ftext img r sent")
    have ev: "ev = ev2 @ ev3" and s: "sent' = s3"
      using assms a Inr b by (simp_all add: finish_line_def Let_def ftext_def)
    from send_line_result [OF b] pe show ?thesis
      unfolding ev s by auto
  qed
qed


lemma finish_line_without_reply:
  "fst (finish_line env n a content ms None s1) =
     map without_reply (fst (finish_line env n a content ms r s2))
   \<and> fst (snd (finish_line env n a content ms None s1)) =
     fst (snd (finish_line env n a content ms r s2))"
proof -
  obtain ev2 im where a: "parse_image env n content = (ev2, im)"
    by (cases "parse_image env n content")
  note pe = parse_image_events [OF a]
  show ?thesis
  proof (cases im)
    case (Inl e)
    with a pe show ?thesis
      by (simp add: finish_line_def Let_def)
  next
    case (Inr img)
    define ftext where "ftext = (case img of
        Some (image_path, image_caption) \<Rightarrow> strip (prefix_text ms @ image_caption)
      | None \<Rightarrow> strip (prefix_text ms @
           (case split_once fullwidth_colon content of (_, Some text_body) \<Rightarrow> text_body
            | (_, None) \<Rightarrow> content)))"
    have one: "finish_line env n a content ms None s1 =
                 (ev2 @ fst (send_line env n a ftext img None s1),
                  snd (send_line env n a ftext img None s1))"
      using a Inr by (simp add: finish_line_def Let_def ftext_def split: prod.splits)
    have two: "finish_line env n a content ms r s2 =
                 (ev2 @ fst (send_line env n a ftext img r s2),
                  snd (send_line env n a ftext img r s2))"
      using a Inr by (simp add: finish_line_def Let_def ftext_def split: prod.splits)
    show ?thesis
      unfolding one two
      using send_line_without_reply [of env n a ftext img s1 r s2] pe by simp
  qed
qed

text \<open>The branches of the loop body.\<close>

lemma process_line_no_separator:
  assumes "split_once role_separator line = (role, None)"
  shows "process_line env n line amap sent =
           (replicate (pause_polls env) (ScriptSleep (1 / 2)) @ [ScriptLog (WarnFormat n)], Continue, sent)"
  by (simp add: process_line_def Let_def assms)

lemma process_line_bad_role:
  assumes "split_once role_separator line = (role, Some rest)" and "py_int (strip role) = Inl e"
  shows "process_line env n line amap sent =
           (replicate (pause_polls env) (ScriptSleep (1 / 2)) @ [ScriptLog (ErrorLineException n)],
            EndOfBody, sent)"
  by (simp add: process_line_def Let_def assms)

lemma process_line_unbound_role:
  assumes "split_once role_separator line = (role, Some rest)" and "py_int (strip role) = Inr k"
    and "amap k = None"
  shows "process_line env n line amap sent =
           (replicate (pause_polls env) (ScriptSleep (1 / 2)) @ [ScriptLog (ErrorRoleMissing n k)],
            Continue, sent)"
  by (simp add: process_line_def Let_def assms)

lemma process_line_bad_marker:
  assumes "split_once role_separator line = (role, Some rest)" and "py_int (strip role) = Inr k"
    and "amap k = Some a" and "parse_directives n (strip rest) amap sent = (ev1, Inl e)"
  shows "process_line env n line amap sent =
           (replicate (pause_polls env) (ScriptSleep (1 / 2)) @ ev1 @ [ScriptLog (ErrorLineException n)],
            EndOfBody, sent)"
  by (simp add: process_line_def Let_def assms)

lemma process_line_finish:
  assumes "split_once role_separator line = (role, Some rest)" and "py_int (strip role) = Inr k"
    and "amap k = Some a" and "parse_directives n (strip rest) amap sent = (ev1, Inr (r, ms))"
  shows "process_line env n line amap sent =
           (replicate (pause_polls env) (ScriptSleep (1 / 2)) @ ev1
              @ fst (finish_line env n a (strip rest) ms r sent),
            snd (finish_line env n a (strip rest) ms r sent))"
  by (simp add: process_line_def Let_def assms split: prod.splits)

lemma quiet_line:
  assumes "ev = replicate k (ScriptSleep (1 / 2)) @ ev1 @ [ScriptLog l]" "sends ev1 = []" "sent' = sent"
  shows "(sent' = sent \<or> (\<exists>x. send_returns env = Some x \<and> sent' = sent(n \<mapsto> x)))
       \<and> (sends ev \<noteq> [] \<longrightarrow> (\<forall>x. send_returns env = Some x \<longrightarrow> sent' = sent(n \<mapsto> x)))"
  using assms by simp

lemma process_line_result_no_separator:
  assumes "process_line env n line amap sent = (ev, fin, sent')"
    and "split_once role_separator line = (role, None)"
  shows "(sent' = sent \<or> (\<exists>x. send_returns env = Some x \<and> sent' = sent(n \<mapsto> x)))
       \<and> (sends ev \<noteq> [] \<longrightarrow> (\<forall>x. send_returns env = Some x \<longrightarrow> sent' = sent(n \<mapsto> x)))"
proof -
  have "process_line env n line amap sent =
          (replicate (pause_polls env) (ScriptSleep (1 / 2)) @ [ScriptLog (WarnFormat n)], Continue, sent)"
    using assms(2) by (rule process_line_no_separator)
  with assms(1) have "ev = replicate (pause_polls env) (ScriptSleep (1 / 2)) @ [] @ [ScriptLog (WarnFormat n)]"
    and "sent' = sent" by simp_all
  then show ?thesis by (intro quiet_line [where ?ev1.0 = "[]"]) simp_all
qed

lemma process_line_result_bad_role:
  assumes "process_line env n line amap sent = (ev, fin, sent')"
    and "split_once role_separator line = (role, Some rest)" and "py_int (strip role) = Inl e"
  shows "(sent' = sent \<or> (\<exists>x. send_returns env = Some x \<and> sent' = sent(n \<mapsto> x)))
       \<and> (sends ev \<noteq> [] \<longrightarrow> (\<forall>x. send_returns env = Some x \<longrightarrow> sent' = sent(n \<mapsto> x)))"
proof -
  have "process_line env n line amap sent =
          (replicate (pause_polls env) (ScriptSleep (1 / 2)) @ [ScriptLog (ErrorLineException n)], EndOfBody, sent)"
    using assms(2,3) by (rule process_line_bad_role)
  with assms(1) have "ev = replicate (pause_polls env) (ScriptSleep (1 / 2)) @ [] @ [ScriptLog (ErrorLineException n)]"
    and "sent' = sent" by simp_all
  then show ?thesis by (intro quiet_line [where ?ev1.0 = "[]"]) simp_all
qed

lemma process_line_result_unbound_role:
  assumes "process_line env n line amap sent = (ev, fin, sent')"
    and "split_once role_separator line = (role, Some rest)" and "py_int (strip role) = Inr k"
    and "amap k = None"
  shows "(sent' = sent \<or> (\<exists>x. send_returns env = Some x \<and> sent' = sent(n \<mapsto> x)))
       \<and> (sends ev \<noteq> [] \<longrightarrow> (\<forall>x. send_returns env = Some x \<longrightarrow> sent' = sent(n \<mapsto> x)))"
proof -
  have "process_line env n line amap sent =
          (replicate (pause_polls env) (ScriptSleep (1 / 2)) @ [ScriptLog (ErrorRoleMissing n k)], Continue, sent)"
    using assms(2,3,4) by (rule process_line_unbound_role)
  with assms(1) have "ev = replicate (pause_polls env) (ScriptSleep (1 / 2)) @ [] @ [ScriptLog (ErrorRoleMissing n k)]"
    and "sent' = sent" by simp_all
  then show ?thesis by (intro quiet_line [where ?ev1.0 = "[]"]) simp_all
qed


lemma process_line_result_bad_marker:
  assumes "process_line env n line amap sent = (ev, fin, sent')"
    and "split_once role_separator line = (role, Some rest)" and "py_int (strip role) = Inr k"
    and "amap k = Some a" and "parse_directives n (strip rest) amap sent = (ev1, Inl e)"
  shows "(sent' = sent \<or> (\<exists>x. send_returns env = Some x \<and> sent' = sent(n \<mapsto> x)))
       \<and> (sends ev \<noteq> [] \<longrightarrow> (\<forall>x. send_returns env = Some x \<longrightarrow> sent' = sent(n \<mapsto> x)))"
proof -
  have pe: "sends ev1 = []" using parse_directives_events [OF assms(5)] by simp
  have "process_line env n line amap sent =
          (replicate (pause_polls env) (ScriptSleep (1 / 2)) @ ev1 @ [ScriptLog (ErrorLineException n)], EndOfBody, sent)"
    using assms(2,3,4,5) by (rule process_line_bad_marker)
  with assms(1) have "ev = replicate (pause_polls env) (ScriptSleep (1 / 2)) @ ev1 @ [ScriptLog (ErrorLineException n)]"
    and "sent' = sent" by simp_all
  then show ?thesis using pe by (intro quiet_line [where ?ev1.0 = ev1]) 
qed

lemma process_line_result_finish:
  assumes "process_line env n line amap sent = (ev, fin, sent')"
    and "split_once role_separator line = (role, Some rest)" and "py_int (strip role) = Inr k"
    and "amap k = Some a" and "parse_directives n (strip rest) amap sent = (ev1, Inr (r, ms))"
  shows "(sent' = sent \<or> (\<exists>x. send_returns env = Some x \<and> sent' = sent(n \<mapsto> x)))
       \<and> (sends ev \<noteq> [] \<longrightarrow> (\<forall>x. send_returns env = Some x \<longrightarrow> sent' = sent(n \<mapsto> x)))"
proof -
  have pe: "sends ev1 = []" using parse_directives_events [OF assms(5)] by simp
  obtain ev2 fin2 s2 where fl: "finish_line env n a (strip rest) ms r sent = (ev2, fin2, s2)"
    by (cases "finish_line env n a (strip rest) ms r sent")
  have "process_line env n line amap sent =
          (replicate (pause_polls env) (ScriptSleep (1 / 2)) @ ev1 @ fst (finish_line env n a (strip rest) ms r sent),
           snd (finish_line env n a (strip rest) ms r sent))"
    using assms(2,3,4,5) by (rule process_line_finish)
  with assms(1) fl have ev: "ev = replicate (pause_polls env) (ScriptSleep (1 / 2)) @ ev1 @ ev2" and s: "sent' = s2"
    by simp_all
  have se: "sends ev = sends ev2"
    unfolding ev using pe by simp
  from finish_line_result [OF fl] show ?thesis
    unfolding se s by blast
qed

text \<open>What one line does to the index.\<close>

lemma process_line_result:
  assumes "process_line env n line amap sent = (ev, fin, sent')"
  shows "(sent' = sent \<or> (\<exists>x. send_returns env = Some x \<and> sent' = sent(n \<mapsto> x)))
       \<and> (sends ev \<noteq> [] \<longrightarrow> (\<forall>x. send_returns env = Some x \<longrightarrow> sent' = sent(n \<mapsto> x)))"
proof -
  obtain role rest_opt where sp: "split_once role_separator line = (role, rest_opt)"
    by (cases "split_once role_separator line")
  show ?thesis
  proof (cases rest_opt)
    case None
    have "split_once role_separator line = (role, None)" using sp None by simp
    with assms show ?thesis by (rule process_line_result_no_separator)
  next
    case (Some rest)
    have sp': "split_once role_separator line = (role, Some rest)" using sp Some by simp
    show ?thesis
    proof (cases "py_int (strip role)")
      case (Inl e)
      from assms sp' Inl show ?thesis by (rule process_line_result_bad_role)
    next
      case (Inr k)
      show ?thesis
      proof (cases "amap k")
        case None
        from assms sp' Inr None show ?thesis by (rule process_line_result_unbound_role)
      next
        case acc: (Some a)
        obtain ev1 pd where pd: "parse_directives n (strip rest) amap sent = (ev1, pd)"
          by (cases "parse_directives n (strip rest) amap sent")
        show ?thesis
        proof (cases pd)
          case (Inl e)
          have "parse_directives n (strip rest) amap sent = (ev1, Inl e)" using pd Inl by simp
          with assms sp' Inr acc show ?thesis by (rule process_line_result_bad_marker)
        next
          case marks: (Inr rm)
          obtain r ms where rm: "rm = (r, ms)" by (cases rm)
          have "parse_directives n (strip rest) amap sent = (ev1, Inr (r, ms))" using pd marks rm by simp
          with assms sp' Inr acc show ?thesis by (rule process_line_result_finish)
        qed
      qed
    qed
  qed
qed

lemma process_line_frame:
  assumes "process_line env n line amap sent = (ev, fin, sent')" and "k \<noteq> n"
  shows "sent' k = sent k"
proof -
  from process_line_result [OF assms(1)]
  consider "sent' = sent" | x where "sent' = sent(n \<mapsto> x)" by blast
  then show ?thesis
  proof cases
    case 1
    then show ?thesis by simp
  next
    case 2
    then show ?thesis using assms(2) by simp
  qed
qed

text \<open>A reply marker, read as the engine reads it.\<close>

lemma reply_targetD:
  assumes "reply_target line = Some K"
  obtains role rest ds where "split_once role_separator line = (role, Some rest)"
    and "fullwidth_colon \<in> set (strip rest)"
    and "search_reply (fst (split_once fullwidth_colon (strip rest))) = Some ds"
    and "py_int ds = Inr K"
  using assms
  by (auto simp add: reply_target_def split: prod.splits option.splits if_splits sum.splits)

lemma resolve_reply_lookup:
  assumes "search_reply meta = Some ds" and "py_int ds = Inr K"
  shows "resolve_reply n meta sent =
           (case sent K of Some x \<Rightarrow> ([], Inr (Some x))
            | None \<Rightarrow> ([ScriptLog (WarnReplyMissing n K)], Inr None))"
  using assms by (simp add: resolve_reply_def)

lemma parse_directives_lookup:
  assumes "fullwidth_colon \<in> set content"
    and "search_reply (fst (split_once fullwidth_colon content)) = Some ds" and "py_int ds = Inr K"
    and "resolve_mentions_delay n (fst (split_once fullwidth_colon content)) amap = (ev2, res)"
  shows "parse_directives n content amap sent =
           ((case sent K of Some x \<Rightarrow> [] | None \<Rightarrow> [ScriptLog (WarnReplyMissing n K)]) @ ev2,
            map_sum id (Pair (sent K)) res)"
  using assms
  by (cases res; cases "sent K") (simp_all add: parse_directives_def resolve_reply_lookup Let_def)

text \<open>
  A line with the reply marker \<^verbatim>\<open>R[K]\<close>: whatever it sends carries as reply id what the
  index holds for \<open>K\<close> when the line starts.
\<close>

lemma process_line_reply:
  assumes "reply_target line = Some K"
    and "process_line env n line amap sent = (ev, fin, sent')"
  shows "\<forall>e\<in>set (sends ev). reply_to e = sent K"
proof -
  let ?paused = "replicate (pause_polls env) (ScriptSleep (1 / 2))"
  from assms(1) obtain role rest ds where sp: "split_once role_separator line = (role, Some rest)"
    and colon: "fullwidth_colon \<in> set (strip rest)"
    and sr: "search_reply (fst (split_once fullwidth_colon (strip rest))) = Some ds"
    and pi: "py_int ds = Inr K"
    by (rule reply_targetD)
  obtain ev2 res where md:
    "resolve_mentions_delay n (fst (split_once fullwidth_colon (strip rest))) amap = (ev2, res)"
    by (cases "resolve_mentions_delay n (fst (split_once fullwidth_colon (strip rest))) amap")
  note pd = parse_directives_lookup [OF colon sr pi md, of sent]
  have ev2: "sends ev2 = []" using resolve_mentions_delay_events [OF md] by simp
  have ev: "ev = fst (process_line env n line amap sent)" using assms(2) by simp
  show ?thesis
  proof (cases "py_int (strip role)")
    case (Inl e)
    have "process_line env n line amap sent = (?paused @ [ScriptLog (ErrorLineException n)], EndOfBody, sent)"
      using sp Inl by (rule process_line_bad_role)
    then have "ev = ?paused @ [ScriptLog (ErrorLineException n)]" unfolding ev by simp
    then show ?thesis by simp
  next
    case (Inr k)
    show ?thesis
    proof (cases "amap k")
      case None
      have "process_line env n line amap sent = (?paused @ [ScriptLog (ErrorRoleMissing n k)], Continue, sent)"
        using sp Inr None by (rule process_line_unbound_role)
      then have "ev = ?paused @ [ScriptLog (ErrorRoleMissing n k)]" unfolding ev by simp
      then show ?thesis by simp
    next
      case acc: (Some a)
      show ?thesis
      proof (cases res)
        case bad: (Inl e)
        have "parse_directives n (strip rest) amap sent =
                ((case sent K of Some x \<Rightarrow> [] | None \<Rightarrow> [ScriptLog (WarnReplyMissing n K)]) @ ev2, Inl e)"
          using pd bad by simp
        with sp Inr acc have "process_line env n line amap sent =
                (?paused @ ((case sent K of Some x \<Rightarrow> [] | None \<Rightarrow> [ScriptLog (WarnReplyMissing n K)]) @ ev2)
                   @ [ScriptLog (ErrorLineException n)], EndOfBody, sent)"
          by (rule process_line_bad_marker)
        then have "ev = ?paused @ ((case sent K of Some x \<Rightarrow> [] | None \<Rightarrow> [ScriptLog (WarnReplyMissing n K)]) @ ev2)
                   @ [ScriptLog (ErrorLineException n)]" unfolding ev by simp
        then show ?thesis using ev2 by (simp split: option.splits)
      next
        case ok: (Inr ms)
        have "parse_directives n (strip rest) amap sent =
                ((case sent K of Some x \<Rightarrow> [] | None \<Rightarrow> [ScriptLog (WarnReplyMissing n K)]) @ ev2,
                 Inr (sent K, ms))"
          using pd ok by simp
        with sp Inr acc have "process_line env n line amap sent =
                (?paused @ ((case sent K of Some x \<Rightarrow> [] | None \<Rightarrow> [ScriptLog (WarnReplyMissing n K)]) @ ev2)
                   @ fst (finish_line env n a (strip rest) ms (sent K) sent),
                 snd (finish_line env n a (strip rest) ms (sent K) sent))"
          by (rule process_line_finish)
        then have "ev = ?paused @ ((case sent K of Some x \<Rightarrow> [] | None \<Rightarrow> [ScriptLog (WarnReplyMissing n K)]) @ ev2)
                   @ fst (finish_line env n a (strip rest) ms (sent K) sent)" unfolding ev by simp
        then have se: "sends ev = sends (fst (finish_line env n a (strip rest) ms (sent K) sent))"
          using ev2 by (simp split: option.splits)
        obtain ev3 fin3 s3 where fl: "finish_line env n a (strip rest) ms (sent K) sent = (ev3, fin3, s3)"
          by (cases "finish_line env n a (strip rest) ms (sent K) sent")
        from finish_line_result [OF fl] show ?thesis
          unfolding se fl by simp
      qed
    qed
  qed
qed

text \<open>
  A line with the reply marker \<^verbatim>\<open>R[K]\<close> when the index has no entry for \<open>K\<close>: the line
  does what it does when the entry is there, except that the warning is logged and the
  transport call carries no reply id.
\<close>

lemma process_line_reply_missing:
  assumes "reply_target line = Some K" and "sent K = None"
  shows "filter (\<lambda>e. e \<noteq> ScriptLog (WarnReplyMissing n K)) (fst (process_line env n line amap sent)) =
           map without_reply (fst (process_line env n line amap (sent(K \<mapsto> X))))
       \<and> fst (snd (process_line env n line amap sent)) =
           fst (snd (process_line env n line amap (sent(K \<mapsto> X))))"
proof -
  let ?paused = "replicate (pause_polls env) (ScriptSleep (1 / 2))"
  let ?W = "ScriptLog (WarnReplyMissing n K)"
  let ?sent' = "sent(K \<mapsto> X)"
  from assms(1) obtain role rest ds where sp: "split_once role_separator line = (role, Some rest)"
    and colon: "fullwidth_colon \<in> set (strip rest)"
    and sr: "search_reply (fst (split_once fullwidth_colon (strip rest))) = Some ds"
    and pi: "py_int ds = Inr K"
    by (rule reply_targetD)
  obtain ev2 res where md:
    "resolve_mentions_delay n (fst (split_once fullwidth_colon (strip rest))) amap = (ev2, res)"
    by (cases "resolve_mentions_delay n (fst (split_once fullwidth_colon (strip rest))) amap")
  have miss: "parse_directives n (strip rest) amap sent = (?W # ev2, map_sum id (Pair None) res)"
    using parse_directives_lookup [OF colon sr pi md, of sent] assms(2) by simp
  have hit: "parse_directives n (strip rest) amap ?sent' = (ev2, map_sum id (Pair (Some X)) res)"
    using parse_directives_lookup [OF colon sr pi md, of ?sent'] by simp
  have ev2: "map without_reply ev2 = ev2" "filter (\<lambda>e. e \<noteq> ?W) ev2 = ev2"
    using resolve_mentions_delay_events [OF md] by (auto simp add: filter_id_conv)
  have paused: "map without_reply ?paused = ?paused" "filter (\<lambda>e. e \<noteq> ?W) ?paused = ?paused"
    by (simp_all add: filter_id_conv)
  show ?thesis
  proof (cases "py_int (strip role)")
    case (Inl e)
    show ?thesis
      unfolding process_line_bad_role [OF sp Inl] using paused by simp
  next
    case (Inr k)
    show ?thesis
    proof (cases "amap k")
      case None
      show ?thesis
        unfolding process_line_unbound_role [where amap = amap and k = k, OF sp Inr None] using paused by simp
    next
      case acc: (Some a)
      show ?thesis
      proof (cases res)
        case bad: (Inl e)
        have m: "parse_directives n (strip rest) amap sent = (?W # ev2, Inl e)"
          using miss bad by simp
        have h: "parse_directives n (strip rest) amap ?sent' = (ev2, Inl e)"
          using hit bad by simp
        show ?thesis
          unfolding process_line_bad_marker [OF sp Inr acc m] process_line_bad_marker [OF sp Inr acc h]
          using paused ev2 by simp
      next
        case ok: (Inr ms)
        have m: "parse_directives n (strip rest) amap sent = (?W # ev2, Inr (None, ms))"
          using miss ok by simp
        have h: "parse_directives n (strip rest) amap ?sent' = (ev2, Inr (Some X, ms))"
          using hit ok by simp
        obtain ev3 fin3 s3 where fl: "finish_line env n a (strip rest) ms None sent = (ev3, fin3, s3)"
          by (cases "finish_line env n a (strip rest) ms None sent")
        have nowarn: "filter (\<lambda>e. e \<noteq> ?W) ev3 = ev3"
          using finish_line_result [OF fl] by (auto simp add: filter_id_conv)
        have cmp: "ev3 = map without_reply (fst (finish_line env n a (strip rest) ms (Some X) ?sent'))"
          "fin3 = fst (snd (finish_line env n a (strip rest) ms (Some X) ?sent'))"
          using finish_line_without_reply [of env n a "strip rest" ms sent "Some X" ?sent'] fl by simp_all
        show ?thesis
          unfolding process_line_finish [OF sp Inr acc m] process_line_finish [OF sp Inr acc h] fl
          using paused ev2 nowarn cmp by simp
      qed
    qed
  qed
qed

text \<open>The run, line by line.\<close>

lemma run_lines_append:
  "snd (run_lines env amap i (xs @ ys) sent) =
     snd (run_lines env amap (i + length xs) ys (snd (run_lines env amap i xs sent)))
   \<and> sends (fst (run_lines env amap i (xs @ ys) sent)) =
     sends (fst (run_lines env amap i xs sent)) @
     sends (fst (run_lines env amap (i + length xs) ys (snd (run_lines env amap i xs sent))))"
proof (induction xs arbitrary: i sent)
  case Nil
  show ?case by simp
next
  case (Cons x xs)
  obtain ev fin s1 where one: "process_line (env i) (int i + 1) x amap sent = (ev, fin, s1)"
    by (cases "process_line (env i) (int i + 1) x amap sent")
  have a: "run_lines env amap i ((x # xs) @ ys) sent =
             (ev @ (if fin = EndOfBody \<and> xs @ ys \<noteq> [] then [ScriptSleep (wait_time (env i))] else [])
                 @ fst (run_lines env amap (Suc i) (xs @ ys) s1),
              snd (run_lines env amap (Suc i) (xs @ ys) s1))"
    using one by (simp split: prod.splits)
  have b: "run_lines env amap i (x # xs) sent =
             (ev @ (if fin = EndOfBody \<and> xs \<noteq> [] then [ScriptSleep (wait_time (env i))] else [])
                 @ fst (run_lines env amap (Suc i) xs s1),
              snd (run_lines env amap (Suc i) xs s1))"
    using one by (simp split: prod.splits)
  show ?case
    unfolding a b using Cons.IH [of "Suc i" s1] by simp
qed

lemma run_lines_single:
  "run_lines env amap i [x] sent =
     (fst (process_line (env i) (int i + 1) x amap sent),
      snd (snd (process_line (env i) (int i + 1) x amap sent)))"
  by (simp split: prod.splits)

lemma run_lines_frame:
  assumes "k \<le> int i \<or> int (i + length lines) < k"
  shows "snd (run_lines env amap i lines sent) k = sent k"
  using assms
proof (induction lines arbitrary: i sent)
  case Nil
  show ?case by simp
next
  case (Cons x xs)
  obtain ev fin s1 where one: "process_line (env i) (int i + 1) x amap sent = (ev, fin, s1)"
    by (cases "process_line (env i) (int i + 1) x amap sent")
  have ne: "k \<noteq> int i + 1" using Cons.prems by auto
  have s1: "s1 k = sent k" using one ne by (rule process_line_frame)
  have "snd (run_lines env amap (Suc i) xs s1) k = s1 k"
    using Cons.prems by (intro Cons.IH) auto
  then show ?case using one s1
    by (cases "run_lines env amap (Suc i) xs s1") simp
qed

lemma run_lines_dom:
  "dom (snd (run_lines env amap i lines sent)) \<subseteq> dom sent \<union> {int i + 1 .. int (i + length lines)}"
proof
  fix k assume k: "k \<in> dom (snd (run_lines env amap i lines sent))"
  show "k \<in> dom sent \<union> {int i + 1 .. int (i + length lines)}"
  proof (cases "k \<le> int i \<or> int (i + length lines) < k")
    case True
    have "snd (run_lines env amap i lines sent) k = sent k"
      using True by (rule run_lines_frame)
    with k show ?thesis by (auto simp add: dom_def)
  next
    case False
    then show ?thesis by auto
  qed
qed

text \<open>The index changes only with a transport call.\<close>

lemma send_line_quiet:
  "send_line env n a ftext img r sent = (ev, fin, sent') \<Longrightarrow> sends ev = [] \<Longrightarrow> sent' = sent"
  by (auto simp add: send_line_def split: if_splits option.splits prod.splits)

lemma finish_line_quiet:
  assumes "finish_line env n a content ms r sent = (ev, fin, sent')" and "sends ev = []"
  shows "sent' = sent"
proof -
  obtain ev2 im where a: "parse_image env n content = (ev2, im)"
    by (cases "parse_image env n content")
  show ?thesis
  proof (cases im)
    case (Inl e)
    with assms a show ?thesis by (simp add: finish_line_def Let_def)
  next
    case (Inr img)
    let ?ft = "(case img of
                  Some (image_path, image_caption) \<Rightarrow> strip (prefix_text ms @ image_caption)
                | None \<Rightarrow> strip (prefix_text ms @
                    (case split_once fullwidth_colon content of
                       (_, Some text_body) \<Rightarrow> text_body
                     | (_, None) \<Rightarrow> content)))"
    obtain ev3 fin3 s3 where b: "send_line env n a ?ft img r sent = (ev3, fin3, s3)"
      by (cases "send_line env n a ?ft img r sent")
    have "ev = ev2 @ ev3 \<and> sent' = s3"
      using assms(1) a Inr b by (simp add: finish_line_def Let_def)
    with assms(2) send_line_quiet [OF b] show ?thesis by simp
  qed
qed

lemma process_line_quiet:
  assumes "process_line env n line amap sent = (ev, fin, sent')" and "sends ev = []"
  shows "sent' = sent"
proof -
  obtain role rest_opt where sp: "split_once role_separator line = (role, rest_opt)"
    by (cases "split_once role_separator line")
  show ?thesis
  proof (cases rest_opt)
    case None
    with assms(1) sp show ?thesis by (simp add: process_line_def Let_def)
  next
    case (Some rest)
    have sp': "split_once role_separator line = (role, Some rest)" using sp Some by simp
    show ?thesis
    proof (cases "py_int (strip role)")
      case (Inl e)
      with assms(1) sp' show ?thesis by (simp add: process_line_def Let_def)
    next
      case (Inr k)
      show ?thesis
      proof (cases "amap k")
        case None
        with assms(1) sp' Inr show ?thesis by (simp add: process_line_def Let_def)
      next
        case acc: (Some a)
        obtain ev1 pd where pd: "parse_directives n (strip rest) amap sent = (ev1, pd)"
          by (cases "parse_directives n (strip rest) amap sent")
        show ?thesis
        proof (cases pd)
          case (Inl e)
          with assms(1) sp' Inr acc pd show ?thesis by (simp add: process_line_def Let_def)
        next
          case marks: (Inr rm)
          obtain r ms where rm: "rm = (r, ms)" by (cases rm)
          obtain ev2 fin2 s2 where fl: "finish_line env n a (strip rest) ms r sent = (ev2, fin2, s2)"
            by (cases "finish_line env n a (strip rest) ms r sent")
          have "ev = replicate (pause_polls env) (ScriptSleep (1 / 2)) @ ev1 @ ev2 \<and> sent' = s2"
            using assms(1) sp' Inr acc pd marks rm fl by (simp add: process_line_def Let_def)
          with assms(2) finish_line_quiet [OF fl] show ?thesis by simp
        qed
      qed
    qed
  qed
qed

text \<open>
  What a line records: the id the transport call returned, under the line's own number, when
  there was a call and it returned; nothing otherwise.
\<close>

lemma process_line_records:
  "snd (snd (process_line env n line amap sent)) =
     (if sends (fst (process_line env n line amap sent)) \<noteq> [] \<and> send_returns env \<noteq> None
      then sent(n \<mapsto> the (send_returns env)) else sent)"
proof -
  obtain ev fin sent' where pl: "process_line env n line amap sent = (ev, fin, sent')"
    by (cases "process_line env n line amap sent")
  note res = process_line_result [OF pl]
  show ?thesis
  proof (cases "sends ev = []")
    case True
    with process_line_quiet [OF pl] pl show ?thesis by simp
  next
    case False
    show ?thesis
    proof (cases "send_returns env")
      case None
      with res have "sent' = sent" by simp
      with pl None show ?thesis by simp
    next
      case (Some x)
      with res False have "sent' = sent(n \<mapsto> x)" by blast
      with pl Some False show ?thesis by simp
    qed
  qed
qed

text \<open>The index from line to line.\<close>

lemma sent_before_0 [simp]: "sent_before env amap lines sent 0 = sent"
  by (simp add: sent_before_def)

lemma sent_before_Suc:
  assumes "j < length lines"
  shows "sent_before env amap lines sent (Suc j) =
           snd (snd (process_line (env j) (int j + 1) (lines ! j) amap (sent_before env amap lines sent j)))"
proof -
  have tk: "take (Suc j) lines = take j lines @ [lines ! j]"
    using assms by (rule take_Suc_conv_app_nth)
  have len: "length (take j lines) = j" using assms by simp
  show ?thesis
    unfolding sent_before_def tk
    using run_lines_append [where env = env and amap = amap and i = 0 and xs = "take j lines"
        and ys = "[lines ! j]" and sent = sent] assms
    by (simp add: min_def split: prod.splits)
qed

lemma sent_before_all:
  "sent_before env amap lines sent (length lines) = snd (run_script_loop env amap lines sent)"
  by (simp add: sent_before_def run_script_loop_def)

lemma sent_before_frame:
  assumes "j \<le> length lines" and "K \<le> 0 \<or> int j < K"
  shows "sent_before env amap lines sent j K = sent K"
proof -
  have "K \<le> int 0 \<or> int (0 + length (take j lines)) < K" using assms by auto
  then show ?thesis unfolding sent_before_def by (rule run_lines_frame)
qed

lemma sent_before_later:
  assumes "k < j" and "j \<le> length lines"
  shows "sent_before env amap lines sent j (int k + 1) = sent_before env amap lines sent (Suc k) (int k + 1)"
  using assms
proof (induction j)
  case 0
  then show ?case by simp
next
  case (Suc j)
  show ?case
  proof (cases "k = j")
    case True
    then show ?thesis by simp
  next
    case False
    with Suc.prems have kj: "k < j" and jl: "j < length lines" by simp_all
    obtain ev fin s' where pl:
      "process_line (env j) (int j + 1) (lines ! j) amap (sent_before env amap lines sent j) = (ev, fin, s')"
      by (cases "process_line (env j) (int j + 1) (lines ! j) amap (sent_before env amap lines sent j)")
    have ne: "int k + 1 \<noteq> int j + 1" using kj by simp
    have "s' (int k + 1) = sent_before env amap lines sent j (int k + 1)"
      using pl ne by (rule process_line_frame)
    moreover have "sent_before env amap lines sent (Suc j) = s'"
      using sent_before_Suc [OF jl, of env amap sent] pl by simp
    ultimately show ?thesis using Suc.IH kj jl by simp
  qed
qed

text \<open>
  The entry of line number \<open>k + 1\<close> when a later line starts: the id the transport call of
  that line returned, or what the index held before the run.
\<close>

lemma sent_before_entry:
  assumes "k < j" and "j \<le> length lines"
  shows "sent_before env amap lines sent j (int k + 1) =
           (if sends (line_events env amap lines sent k) \<noteq> [] \<and> send_returns (env k) \<noteq> None
            then send_returns (env k) else sent (int k + 1))"
proof -
  have kl: "k < length lines" using assms by simp
  have "sent_before env amap lines sent k (int k + 1) = sent (int k + 1)"
    by (rule sent_before_frame) (use kl in simp_all)
  then show ?thesis
    unfolding sent_before_later [OF assms] sent_before_Suc [OF kl] line_events_def
    by (simp add: process_line_records)
qed

text \<open>The transport calls of a run are those of its lines, in order.\<close>

lemma sends_run_lines_take:
  "j \<le> length lines \<Longrightarrow>
     sends (fst (run_lines env amap 0 (take j lines) sent)) =
       concat (map (\<lambda>i. sends (line_events env amap lines sent i)) [0..<j])"
proof (induction j)
  case 0
  show ?case by simp
next
  case (Suc j)
  then have jl: "j < length lines" by simp
  have tk: "take (Suc j) lines = take j lines @ [lines ! j]"
    using jl by (rule take_Suc_conv_app_nth)
  have len: "length (take j lines) = j" using jl by simp
  have "sends (fst (run_lines env amap 0 (take (Suc j) lines) sent)) =
          sends (fst (run_lines env amap 0 (take j lines) sent)) @
          sends (fst (run_lines env amap j [lines ! j] (sent_before env amap lines sent j)))"
    unfolding tk sent_before_def
    using run_lines_append [where env = env and amap = amap and i = 0 and xs = "take j lines"
        and ys = "[lines ! j]" and sent = sent] jl
    by (simp add: min_def)
  then show ?case
    using Suc.IH jl by (simp add: line_events_def split: prod.splits)
qed

lemma sends_run_script_loop:
  "sends (fst (run_script_loop env amap lines sent)) =
     concat (map (\<lambda>i. sends (line_events env amap lines sent i)) [0..<length lines])"
  using sends_run_lines_take [where j = "length lines" and lines = lines]
  by (simp add: run_script_loop_def)

text \<open>Evaluating the string functions on the example lines.\<close>

lemma digit_value_ascii: "48 \<le> c \<Longrightarrow> c \<le> 57 \<Longrightarrow> digit_value c = Some (c - 48)"
  by (simp add: digit_value_def decimal_zeros_def)

lemma digit_value_below: "c < 48 \<Longrightarrow> digit_value c = None"
  by (simp add: digit_value_def decimal_zeros_def)

lemma digit_value_between: "57 < c \<Longrightarrow> c < 1632 \<Longrightarrow> digit_value c = None"
  by (simp add: digit_value_def decimal_zeros_def)

lemma is_digit_ascii:
  "48 \<le> c \<Longrightarrow> c \<le> 57 \<Longrightarrow> is_digit c"
  "c < 48 \<Longrightarrow> \<not> is_digit c"
  "57 < c \<Longrightarrow> c < 1632 \<Longrightarrow> \<not> is_digit c"
  by (simp_all add: is_digit_def digit_value_ascii digit_value_below digit_value_between)

lemma is_digit_separators: "\<not> is_digit role_separator" "\<not> is_digit fullwidth_colon"
  by (simp_all add: is_digit_def digit_value_def decimal_zeros_def role_separator_def fullwidth_colon_def)

lemma is_space_ascii:
  "is_space 32" "is_space 10"
  "32 < c \<Longrightarrow> c < 133 \<Longrightarrow> \<not> is_space c"
  by (auto simp add: is_space_def whitespace_def)

lemma is_space_separators: "\<not> is_space role_separator" "\<not> is_space fullwidth_colon"
  by (simp_all add: is_space_def whitespace_def role_separator_def fullwidth_colon_def)

lemma is_int_space_ascii: "32 < c \<Longrightarrow> c < 133 \<Longrightarrow> \<not> is_int_space c"
  by (simp add: is_int_space_def is_space_ascii)

lemmas char_class = is_digit_ascii is_digit_separators is_space_ascii is_space_separators
  is_int_space_ascii digit_value_ascii

lemma py_int_1: "py_int (ascii ''1'') = Inr 1"
  by (simp add: py_int_def ascii_def int_strip_def char_class digits_value_def int_max_str_digits_def)

lemma py_int_2: "py_int (ascii ''2'') = Inr 2"
  by (simp add: py_int_def ascii_def int_strip_def char_class digits_value_def int_max_str_digits_def)

lemma py_int_3: "py_int (ascii ''3'') = Inr 3"
  by (simp add: py_int_def ascii_def int_strip_def char_class digits_value_def int_max_str_digits_def)

lemma strip_role:
  "strip (ascii ''1'') = ascii ''1''" "strip (ascii ''2'') = ascii ''2''"
  by (simp_all add: strip_def ascii_def char_class)

lemma strip_body:
  "strip (ascii ''thanks'') = ascii ''thanks''"
  by (simp add: strip_def ascii_def char_class)

lemma scenario_b_split:
  "split_once role_separator scenario_b_line = (ascii ''1'', Some scenario_b_content)"
  by (simp add: scenario_b_line_def scenario_b_content_def split_once_def ascii_def
        role_separator_def fullwidth_colon_def)

lemma scenario_b_strip: "strip scenario_b_content = scenario_b_content"
  by (simp add: scenario_b_content_def strip_def ascii_def char_class)

lemma scenario_b_meta:
  "split_once fullwidth_colon scenario_b_content = (ascii ''@2'', Some (ascii ''hello''))"
  "fullwidth_colon \<in> set scenario_b_content"
  by (simp_all add: scenario_b_content_def split_once_def ascii_def fullwidth_colon_def)

lemma scenario_b_marks:
  "search_reply (ascii ''@2'') = None"
  "search_delay (ascii ''@2'') = None"
  "findall_mentions (ascii ''@2'') = [ascii ''2'']"
  by (simp_all add: search_reply_def search_delay_def match_digits_def ascii_def char_class)

lemma scenario_b_no_image: "after_first (ascii ''IMG:'') scenario_b_content = None"
  by (simp add: scenario_b_content_def ascii_def fullwidth_colon_def)

lemma scenario_b_process:
  assumes "amap 1 = Some a" and "amap 2 = Some b" and "sender_connected env"
    and "send_returns env = Some x"
  shows "process_line env n scenario_b_line amap sent =
           (replicate (pause_polls env) (ScriptSleep (1 / 2)) @
              [SendMessage (acc_session_name a) (strip (mention_text b @ ascii ''hello'')) None],
            EndOfBody, sent(n \<mapsto> x))"
proof -
  have pd: "parse_directives n scenario_b_content amap sent = ([], Inr (None, [b]))"
    using assms(2)
    by (simp add: parse_directives_def scenario_b_meta resolve_reply_def resolve_mentions_delay_def
          resolve_delay_def scenario_b_marks py_int_2 Let_def)
  have fl: "finish_line env n a scenario_b_content [b] None sent =
              ([SendMessage (acc_session_name a) (strip (mention_text b @ ascii ''hello'')) None],
               EndOfBody, sent(n \<mapsto> x))"
    using assms(3,4)
    by (simp add: finish_line_def scenario_b_meta parse_image_def scenario_b_no_image prefix_text_def
          send_line_def Let_def)
  show ?thesis
    using assms(1)
    by (simp add: process_line_def scenario_b_split scenario_b_strip strip_role py_int_1 pd fl Let_def)
qed

lemma mention_text_bob:
  "real_username b = PyStr (ascii ''bob'') \<Longrightarrow> strip (mention_text b @ ascii ''hello'') = ascii ''@bob hello''"
  by (simp add: mention_text_def strip_def ascii_def char_class)

lemma scenario_c_split:
  "split_once role_separator scenario_c_line = (ascii ''1'', Some scenario_c_content)"
  by (simp add: scenario_c_line_def scenario_c_content_def split_once_def ascii_def
        role_separator_def fullwidth_colon_def)

lemma scenario_c_strip: "strip scenario_c_content = scenario_c_content"
  by (simp add: scenario_c_content_def strip_def ascii_def char_class)

lemma scenario_c_meta:
  "split_once fullwidth_colon scenario_c_content = (ascii ''R[3]'', Some (ascii ''thanks''))"
  "fullwidth_colon \<in> set scenario_c_content"
  by (simp_all add: scenario_c_content_def split_once_def ascii_def fullwidth_colon_def)

lemma scenario_c_marks:
  "search_reply (ascii ''R[3]'') = Some (ascii ''3'')"
  "search_delay (ascii ''R[3]'') = None"
  "findall_mentions (ascii ''R[3]'') = []"
  by (simp_all add: search_reply_def search_delay_def match_digits_def ascii_def char_class)

lemma scenario_c_no_image: "after_first (ascii ''IMG:'') scenario_c_content = None"
  by (simp add: scenario_c_content_def ascii_def fullwidth_colon_def)

lemma scenario_c_target: "reply_target scenario_c_line = Some 3"
  by (simp add: reply_target_def scenario_c_split scenario_c_strip scenario_c_meta scenario_c_marks py_int_3)

lemma scenario_c_process:
  assumes "amap 1 = Some a" and "sender_connected env" and "send_returns env = Some x"
  shows "process_line env n scenario_c_line amap sent =
           (replicate (pause_polls env) (ScriptSleep (1 / 2)) @
              (case sent 3 of None \<Rightarrow> [ScriptLog (WarnReplyMissing n 3)] | Some _ \<Rightarrow> []) @
              [SendMessage (acc_session_name a) (ascii ''thanks'') (sent 3)],
            EndOfBody, sent(n \<mapsto> x))"
proof -
  have pd: "parse_directives n scenario_c_content amap sent =
              ((case sent 3 of None \<Rightarrow> [ScriptLog (WarnReplyMissing n 3)] | Some _ \<Rightarrow> []), Inr (sent 3, []))"
    by (cases "sent 3")
      (simp_all add: parse_directives_def scenario_c_meta resolve_reply_def resolve_mentions_delay_def
          resolve_delay_def scenario_c_marks py_int_3 Let_def)
  have fl: "finish_line env n a scenario_c_content [] (sent 3) sent =
              ([SendMessage (acc_session_name a) (ascii ''thanks'') (sent 3)], EndOfBody, sent(n \<mapsto> x))"
    using assms(2,3)
    by (simp add: finish_line_def scenario_c_meta parse_image_def scenario_c_no_image prefix_text_def
          strip_body send_line_def Let_def)
  show ?thesis
    using assms(1)
    by (simp add: process_line_def scenario_c_split scenario_c_strip strip_role py_int_1 pd fl Let_def)
qed

lemma reply_line_split:
  "split_once role_separator reply_line = (ascii ''2'', Some reply_content)"
  by (simp add: reply_line_def reply_content_def split_once_def ascii_def
        role_separator_def fullwidth_colon_def)

lemma reply_line_strip: "strip reply_content = reply_content"
  by (simp add: reply_content_def strip_def ascii_def char_class)

lemma reply_line_meta:
  "split_once fullwidth_colon reply_content = (ascii ''R[1]'', Some (ascii ''thanks''))"
  "fullwidth_colon \<in> set reply_content"
  by (simp_all add: reply_content_def split_once_def ascii_def fullwidth_colon_def)

lemma reply_line_marks:
  "search_reply (ascii ''R[1]'') = Some (ascii ''1'')"
  "search_delay (ascii ''R[1]'') = None"
  "findall_mentions (ascii ''R[1]'') = []"
  by (simp_all add: search_reply_def search_delay_def match_digits_def ascii_def char_class)

lemma reply_line_no_image: "after_first (ascii ''IMG:'') reply_content = None"
  by (simp add: reply_content_def ascii_def fullwidth_colon_def)

lemma reply_line_target: "reply_target reply_line = Some 1"
  by (simp add: reply_target_def reply_line_split reply_line_strip reply_line_meta reply_line_marks py_int_1)

lemma reply_line_process:
  assumes "amap 2 = Some b" and "sender_connected env" and "send_returns env = Some x"
  shows "process_line env n reply_line amap sent =
           (replicate (pause_polls env) (ScriptSleep (1 / 2)) @
              (case sent 1 of None \<Rightarrow> [ScriptLog (WarnReplyMissing n 1)] | Some _ \<Rightarrow> []) @
              [SendMessage (acc_session_name b) (ascii ''thanks'') (sent 1)],
            EndOfBody, sent(n \<mapsto> x))"
proof -
  have pd: "parse_directives n reply_content amap sent =
              ((case sent 1 of None \<Rightarrow> [ScriptLog (WarnReplyMissing n 1)] | Some _ \<Rightarrow> []), Inr (sent 1, []))"
    by (cases "sent 1")
      (simp_all add: parse_directives_def reply_line_meta resolve_reply_def resolve_mentions_delay_def
          resolve_delay_def reply_line_marks py_int_1 Let_def)
  have fl: "finish_line env n b reply_content [] (sent 1) sent =
              ([SendMessage (acc_session_name b) (ascii ''thanks'') (sent 1)], EndOfBody, sent(n \<mapsto> x))"
    using assms(2,3)
    by (simp add: finish_line_def reply_line_meta parse_image_def reply_line_no_image prefix_text_def
          strip_body send_line_def Let_def)
  show ?thesis
    using assms(1)
    by (simp add: process_line_def reply_line_split reply_line_strip strip_role py_int_2 pd fl Let_def)
qed

lemma example_env_simps:
  "pause_polls (example_env i) = 0" "sender_connected (example_env i)"
  "send_returns (example_env i) = Some (100 + int i)" "wait_time (example_env i) = 1"
  by (simp_all add: example_env_def)

lemma example_accounts_simps:
  "example_accounts 1 = Some account_a" "example_accounts 2 = Some account_b"
  by (simp_all add: example_accounts_def)

lemma account_simps:
  "acc_session_name account_a = ascii ''sa''" "acc_session_name account_b = ascii ''sb''"
  "real_username account_b = PyStr (ascii ''bob'')"
  by (simp_all add: account_a_def account_b_def)

text \<open>Blank lines and the lines of a script.\<close>

lemma strip_empty_iff: "strip s = [] \<longleftrightarrow> list_all is_space s"
proof
  assume "strip s = []"
  then have a: "\<forall>c\<in>set (dropWhile is_space s). is_space c"
    by (simp add: strip_def dropWhile_eq_Nil_conv)
  have "dropWhile is_space s = []"
  proof (rule ccontr)
    assume ne: "dropWhile is_space s \<noteq> []"
    then have "\<not> is_space (hd (dropWhile is_space s))" by (rule hd_dropWhile)
    moreover have "hd (dropWhile is_space s) \<in> set (dropWhile is_space s)" using ne by simp
    ultimately show False using a by blast
  qed
  then show "list_all is_space s" by (simp add: dropWhile_eq_Nil_conv list_all_iff)
next
  assume "list_all is_space s"
  then have d: "dropWhile is_space s = []" by (simp add: dropWhile_eq_Nil_conv list_all_iff)
  show "strip s = []" unfolding strip_def d by simp
qed

lemma split_on_nonempty: "split_on sep s \<noteq> []"
  by (induction s) (simp_all split: list.splits)

lemma split_on_parts: "l \<in> set (split_on sep s) \<Longrightarrow> set l \<subseteq> set s"
proof (induction s arbitrary: l)
  case Nil
  then show ?case by simp
next
  case (Cons c cs)
  show ?case
  proof (cases "c = sep")
    case True
    with Cons show ?thesis by auto
  next
    case False
    obtain part parts where sp: "split_on sep cs = part # parts"
      using split_on_nonempty [of sep cs] by (cases "split_on sep cs") simp_all
    from Cons.prems False sp have "l = c # part \<or> l \<in> set parts" by simp
    then show ?thesis
    proof
      assume "l = c # part"
      moreover have "set part \<subseteq> set cs" using Cons.IH [of part] sp by simp
      ultimately show ?thesis by auto
    next
      assume "l \<in> set parts"
      then have "set l \<subseteq> set cs" using Cons.IH [of l] sp by simp
      then show ?thesis by auto
    qed
  qed
qed

lemma concat_map_if: "concat (map (\<lambda>x. if P x then [f x] else []) xs) = map f (filter P xs)"
  by (induction xs) simp_all

lemma script_lines_filter:
  "script_lines script = map strip (filter (\<lambda>l. \<not> list_all is_space l) (split_on newline script))"
  by (simp add: script_lines_def strip_empty_iff concat_map_if)

lemma script_lines_blank:
  assumes "strip script = []"
  shows "script_lines script = []"
proof -
  have "\<forall>c\<in>set script. is_space c"
    using assms by (simp add: strip_empty_iff list_all_iff)
  then have "\<forall>l\<in>set (split_on newline script). list_all is_space l"
    using split_on_parts [of _ newline script] by (auto simp add: list_all_iff)
  then show ?thesis by (simp add: script_lines_filter filter_empty_conv)
qed

lemma execute_script_lines:
  "execute_script env amap script =
     (if script_lines script = [] then None
      else Some (run_script_loop env amap (script_lines script) Map.empty))"
  using script_lines_blank [of script] by (auto simp add: execute_script_def)

lemma split_on_line:
  "sep \<notin> set xs \<Longrightarrow> split_on sep (xs @ sep # ys) = xs # split_on sep ys"
  by (induction xs) auto

lemma split_on_last: "sep \<notin> set xs \<Longrightarrow> split_on sep xs = [xs]"
  by (induction xs) auto

text \<open>The example scripts.\<close>

lemma reply_script_first:
  "line_events example_env example_accounts reply_script sent 0 =
     [SendMessage (ascii ''sa'') (ascii ''@bob hello'') None]"
  "sent_before example_env example_accounts reply_script sent (Suc 0) = sent(1 \<mapsto> 100)"
proof -
  have pl: "process_line (example_env 0) 1 scenario_b_line example_accounts sent =
              ([SendMessage (ascii ''sa'') (ascii ''@bob hello'') None], EndOfBody, sent(1 \<mapsto> 100))"
    using scenario_b_process [where amap = example_accounts and a = account_a and b = account_b
        and env = "example_env 0" and x = 100 and n = 1 and sent = sent]
    by (simp add: example_env_simps example_accounts_simps account_simps mention_text_bob)
  show "line_events example_env example_accounts reply_script sent 0 =
          [SendMessage (ascii ''sa'') (ascii ''@bob hello'') None]"
    by (simp add: line_events_def reply_script_def pl)
  show "sent_before example_env example_accounts reply_script sent (Suc 0) = sent(1 \<mapsto> 100)"
    using sent_before_Suc [where j = 0 and lines = reply_script and env = example_env
        and amap = example_accounts and sent = sent]
    by (simp add: reply_script_def pl)
qed

lemma reply_script_second:
  "line_events example_env example_accounts reply_script sent (Suc 0) =
     [SendMessage (ascii ''sb'') (ascii ''thanks'') (Some 100)]"
proof -
  have nth: "reply_script ! Suc 0 = reply_line" by (simp add: reply_script_def)
  show ?thesis
    unfolding line_events_def reply_script_first nth
    using reply_line_process [where amap = example_accounts and b = account_b
        and env = "example_env (Suc 0)" and x = 101 and n = 2 and sent = "sent(1 \<mapsto> 100)"]
    by (simp add: example_env_simps example_accounts_simps account_simps)
qed

lemma reply_script_run:
  "run_script_loop example_env example_accounts reply_script Map.empty =
     ([SendMessage (ascii ''sa'') (ascii ''@bob hello'') None, ScriptSleep 1,
       SendMessage (ascii ''sb'') (ascii ''thanks'') (Some 100)],
      [1 \<mapsto> 100, 2 \<mapsto> 101])"
proof -
  have pl1: "process_line (example_env 0) 1 scenario_b_line example_accounts Map.empty =
              ([SendMessage (ascii ''sa'') (ascii ''@bob hello'') None], EndOfBody, [1 \<mapsto> 100])"
    using scenario_b_process [where amap = example_accounts and a = account_a and b = account_b
        and env = "example_env 0" and x = 100 and n = 1 and sent = Map.empty]
    by (simp add: example_env_simps example_accounts_simps account_simps mention_text_bob)
  have pl2: "process_line (example_env (Suc 0)) 2 reply_line example_accounts [1 \<mapsto> 100] =
              ([SendMessage (ascii ''sb'') (ascii ''thanks'') (Some 100)], EndOfBody, [1 \<mapsto> 100, 2 \<mapsto> 101])"
    using reply_line_process [where amap = example_accounts and b = account_b
        and env = "example_env (Suc 0)" and x = 101 and n = 2 and sent = "[1 \<mapsto> 100]"]
    by (simp add: example_env_simps example_accounts_simps account_simps)
  show ?thesis
    by (simp add: run_script_loop_def reply_script_def pl1 pl2 example_env_simps)
qed

lemma scenario_c_events:
  "line_events example_env example_accounts [scenario_c_line] Map.empty 0 =
     [ScriptLog (WarnReplyMissing 1 3), SendMessage (ascii ''sa'') (ascii ''thanks'') None]"
  using scenario_c_process [where amap = example_accounts and a = account_a
      and env = "example_env 0" and x = 100 and n = 1 and sent = Map.empty]
  by (simp add: line_events_def example_env_simps example_accounts_simps account_simps)

lemma example_lines_plain:
  "newline \<notin> set scenario_b_line" "newline \<notin> set reply_line"
  "strip scenario_b_line = scenario_b_line" "strip reply_line = reply_line"
  "scenario_b_line \<noteq> []" "reply_line \<noteq> []"
  by (simp_all add: scenario_b_line_def scenario_b_content_def reply_line_def reply_content_def
        strip_def ascii_def newline_def role_separator_def fullwidth_colon_def is_space_ascii
        is_space_separators [unfolded role_separator_def fullwidth_colon_def])

lemma blank_script_split:
  "split_on newline blank_script = [[], scenario_b_line, [32], reply_line]"
proof -
  have a: "split_on newline (scenario_b_line @ newline # 32 # newline # reply_line) =
             scenario_b_line # split_on newline (32 # newline # reply_line)"
    by (rule split_on_line) (rule example_lines_plain)
  have b: "split_on newline reply_line = [reply_line]"
    by (rule split_on_last) (rule example_lines_plain)
  have ne: "newline \<noteq> 32" by (simp add: newline_def)
  show ?thesis
    by (simp add: blank_script_def a b ne)
qed

lemma blank_script_lines: "script_lines blank_script = reply_script"
  by (simp add: script_lines_def blank_script_split example_lines_plain reply_script_def)
    (simp add: strip_def is_space_ascii)

lemma swapped_text:
  "strip (mention_text account_a @ ascii ''hello'') = ascii ''[Al](tg://user?id=555) hello''"
  by (simp add: mention_text_def account_a_def strip_def ascii_def is_space_ascii str_int_def
        str_nat.simps [of 555] str_nat.simps [of 55] str_nat.simps [of 5] digit_chars_def)

lemma reply_script_simps:
  "length reply_script = 2" "reply_script ! 0 = scenario_b_line" "reply_script ! Suc 0 = reply_line"
  by (simp_all add: reply_script_def)

text \<open>
  Claim C4.  In a run over \<open>lines\<close>, let the line at index \<open>j\<close> carry the reply marker
  \<^verbatim>\<open>R[K]\<close> (read as the engine reads it: the first such marker before the first full-width
  colon of the content).  If \<open>K\<close> is the number of an earlier line of the run whose transport
  call was made and returned the message id \<open>X\<close>, every transport call of line \<open>j\<close> carries
  \<^verbatim>\<open>reply_to = X\<close>.  The index has no entry for \<open>K\<close> when it had none before the run and
  \<open>K\<close> is not the number of an earlier line, or that line made no transport call or its call
  raised.  With no entry for \<open>K\<close>, every transport call of line \<open>j\<close> carries no reply id, and
  the line does exactly what it does when the entry is there, except for the logged warning
  and the missing reply id: in particular the missing entry raises nothing, and what would
  be sent is still sent.
\<close>

theorem reply_marker_resolution:
  assumes "j < length lines" and "reply_target (lines ! j) = Some K"
  shows "(\<forall>k X. k < j \<and> K = int k + 1 \<and> sends (line_events env amap lines sent k) \<noteq> []
                 \<and> send_returns (env k) = Some X \<longrightarrow>
            (\<forall>e\<in>set (sends (line_events env amap lines sent j)). reply_to e = Some X))
       \<and> (sent K = None \<and>
            (K \<le> 0 \<or> int j < K \<or>
              (\<exists>k<j. K = int k + 1 \<and>
                 (sends (line_events env amap lines sent k) = [] \<or> send_returns (env k) = None))) \<longrightarrow>
            sent_before env amap lines sent j K = None)
       \<and> (sent_before env amap lines sent j K = None \<longrightarrow>
            (\<forall>e\<in>set (sends (line_events env amap lines sent j)). reply_to e = None)
          \<and> (\<forall>X. filter (\<lambda>e. e \<noteq> ScriptLog (WarnReplyMissing (int j + 1) K))
                     (line_events env amap lines sent j) =
                   map without_reply
                     (fst (process_line (env j) (int j + 1) (lines ! j) amap
                        ((sent_before env amap lines sent j)(K \<mapsto> X))))
                \<and> fst (snd (process_line (env j) (int j + 1) (lines ! j) amap
                        (sent_before env amap lines sent j))) =
                   fst (snd (process_line (env j) (int j + 1) (lines ! j) amap
                        ((sent_before env amap lines sent j)(K \<mapsto> X))))))"
proof -
  let ?s = "sent_before env amap lines sent j"
  obtain ev fin s' where pl: "process_line (env j) (int j + 1) (lines ! j) amap ?s = (ev, fin, s')"
    by (cases "process_line (env j) (int j + 1) (lines ! j) amap ?s")
  have le: "line_events env amap lines sent j = ev"
    using pl by (simp add: line_events_def)
  have reply: "\<forall>e\<in>set (sends ev). reply_to e = ?s K"
    using assms(2) pl by (rule process_line_reply)
  have jl: "j \<le> length lines" using assms(1) by simp
  have p1: "\<forall>k X. k < j \<and> K = int k + 1 \<and> sends (line_events env amap lines sent k) \<noteq> []
                 \<and> send_returns (env k) = Some X \<longrightarrow>
              (\<forall>e\<in>set (sends (line_events env amap lines sent j)). reply_to e = Some X)"
  proof (intro allI impI)
    fix k X
    assume h: "k < j \<and> K = int k + 1 \<and> sends (line_events env amap lines sent k) \<noteq> []
                 \<and> send_returns (env k) = Some X"
    then have kj: "k < j" by simp
    have "?s (int k + 1) = Some X"
      using sent_before_entry [OF kj jl, of env amap sent] h by simp
    then show "\<forall>e\<in>set (sends (line_events env amap lines sent j)). reply_to e = Some X"
      using reply le h by simp
  qed
  have p2: "sent K = None \<and>
            (K \<le> 0 \<or> int j < K \<or>
              (\<exists>k<j. K = int k + 1 \<and>
                 (sends (line_events env amap lines sent k) = [] \<or> send_returns (env k) = None))) \<longrightarrow>
            ?s K = None"
  proof (intro impI)
    assume h: "sent K = None \<and>
            (K \<le> 0 \<or> int j < K \<or>
              (\<exists>k<j. K = int k + 1 \<and>
                 (sends (line_events env amap lines sent k) = [] \<or> send_returns (env k) = None)))"
    then consider "K \<le> 0 \<or> int j < K"
      | k where "k < j" and "K = int k + 1"
          and "sends (line_events env amap lines sent k) = [] \<or> send_returns (env k) = None"
      by blast
    then show "?s K = None"
    proof cases
      case 1
      have "?s K = sent K" using jl 1 by (rule sent_before_frame)
      with h show ?thesis by simp
    next
      case 2
      have "?s (int k + 1) = sent (int k + 1)"
        using sent_before_entry [OF 2(1) jl, of env amap sent] 2(3) by auto
      with h 2(2) show ?thesis by simp
    qed
  qed
  have p3: "?s K = None \<longrightarrow>
            (\<forall>e\<in>set (sends (line_events env amap lines sent j)). reply_to e = None)
          \<and> (\<forall>X. filter (\<lambda>e. e \<noteq> ScriptLog (WarnReplyMissing (int j + 1) K))
                     (line_events env amap lines sent j) =
                   map without_reply
                     (fst (process_line (env j) (int j + 1) (lines ! j) amap (?s(K \<mapsto> X))))
                \<and> fst (snd (process_line (env j) (int j + 1) (lines ! j) amap ?s)) =
                   fst (snd (process_line (env j) (int j + 1) (lines ! j) amap (?s(K \<mapsto> X)))))"
  proof (intro impI conjI allI)
    assume none: "?s K = None"
    show "\<forall>e\<in>set (sends (line_events env amap lines sent j)). reply_to e = None"
      using reply le none by simp
    fix X
    note missing = process_line_reply_missing [where line = "lines ! j" and K = K and sent = ?s
        and env = "env j" and n = "int j + 1" and amap = amap and X = X, OF assms(2) none]
    show "filter (\<lambda>e. e \<noteq> ScriptLog (WarnReplyMissing (int j + 1) K))
            (line_events env amap lines sent j) =
          map without_reply
            (fst (process_line (env j) (int j + 1) (lines ! j) amap (?s(K \<mapsto> X))))"
      unfolding line_events_def using missing by (rule conjunct1)
    show "fst (snd (process_line (env j) (int j + 1) (lines ! j) amap ?s)) =
          fst (snd (process_line (env j) (int j + 1) (lines ! j) amap (?s(K \<mapsto> X))))"
      using missing by (rule conjunct2)
  qed
  from p1 p2 p3 show ?thesis by (intro conjI)
qed

theorem reply_marker_resolution_witness:
  "reply_target (reply_script ! Suc 0) = Some 1
   \<and> sends (line_events example_env example_accounts reply_script Map.empty 0) =
       [SendMessage (ascii ''sa'') (ascii ''@bob hello'') None]
   \<and> send_returns (example_env 0) = Some 100
   \<and> sends (line_events example_env example_accounts reply_script Map.empty (Suc 0)) =
       [SendMessage (ascii ''sb'') (ascii ''thanks'') (Some 100)]
   \<and> reply_target ([scenario_c_line] ! 0) = Some 3
   \<and> sent_before example_env example_accounts [scenario_c_line] Map.empty 0 3 = None
   \<and> line_events example_env example_accounts [scenario_c_line] Map.empty 0 =
       [ScriptLog (WarnReplyMissing 1 3), SendMessage (ascii ''sa'') (ascii ''thanks'') None]"
  using reply_marker_resolution [where lines = reply_script and j = "Suc 0" and K = 1
          and env = example_env and amap = example_accounts and sent = Map.empty]
        reply_marker_resolution [where lines = "[scenario_c_line]" and j = 0 and K = 3
          and env = example_env and amap = example_accounts and sent = Map.empty]
  by (simp add: reply_script_first reply_script_second scenario_c_events scenario_c_target
        reply_line_target example_env_simps reply_script_simps)

text \<open>The accounts a line mentions, and the text it sends.\<close>

lemma resolve_mentions_accounts:
  "resolve_mentions n amap ms = (ev, Inr accs) \<Longrightarrow>
     accs = concat (map (\<lambda>m. case py_int m of
                               Inl e \<Rightarrow> []
                             | Inr m_role \<Rightarrow> (case amap m_role of None \<Rightarrow> [] | Some acc \<Rightarrow> [acc])) ms)"
proof (induction ms arbitrary: ev accs)
  case Nil
  then show ?case by simp
next
  case (Cons m ms)
  obtain evs rest where rec: "resolve_mentions n amap ms = (evs, rest)"
    by (cases "resolve_mentions n amap ms")
  from Cons.prems rec obtain k where k: "py_int m = Inr k"
    by (cases "py_int m") simp_all
  show ?case
  proof (cases rest)
    case (Inl e)
    with Cons.prems rec k show ?thesis by (simp split: option.splits)
  next
    case (Inr accs')
    have "accs' = concat (map (\<lambda>m. case py_int m of
                               Inl e \<Rightarrow> []
                             | Inr m_role \<Rightarrow> (case amap m_role of None \<Rightarrow> [] | Some acc \<Rightarrow> [acc])) ms)"
      using rec Inr by (intro Cons.IH [of evs accs']) simp
    with Cons.prems rec k Inr show ?thesis by (auto split: option.splits)
  qed
qed

lemma parse_directives_mentions:
  assumes "parse_directives n content amap sent = (ev, Inr (reply, ms))"
  shows "ms = mentioned amap content"
proof (cases "fullwidth_colon \<in> set content")
  case False
  with assms show ?thesis by (simp add: parse_directives_def mentioned_def)
next
  case True
  let ?meta = "fst (split_once fullwidth_colon content)"
  obtain ev2 r2 where a: "resolve_mentions n amap (findall_mentions ?meta) = (ev2, r2)"
    by (cases "resolve_mentions n amap (findall_mentions ?meta)")
  from assms True a obtain accs where r2: "r2 = Inr accs" and ms: "ms = accs"
    by (auto simp add: parse_directives_def resolve_mentions_delay_def Let_def
          split: prod.splits sum.splits)
  from resolve_mentions_accounts [of n amap "findall_mentions ?meta" ev2 accs] a r2 ms True
  show ?thesis by (simp add: mentioned_def)
qed

lemma process_line_text:
  assumes "split_once role_separator line = (role, Some rest)"
    and "py_int (strip role) = Inr r" and "amap r = Some s"
    and "parse_directives n (strip rest) amap sent = (ev1, Inr (reply, ms))"
    and "after_first (ascii ''IMG:'') (strip rest) = None"
    and "sender_connected env"
  shows "sends (fst (process_line env n line amap sent)) =
           [SendMessage (acc_session_name s)
              (strip (concat (map mention_text (mentioned amap (strip rest))) @ message_body (strip rest)))
              reply]"
proof -
  have ms: "ms = mentioned amap (strip rest)"
    using assms(4) by (rule parse_directives_mentions)
  have quiet: "sends ev1 = []"
    using parse_directives_events [OF assms(4)] by simp
  have fl: "sends (fst (finish_line env n s (strip rest) ms reply sent)) =
              [SendMessage (acc_session_name s)
                 (strip (concat (map mention_text ms) @ message_body (strip rest))) reply]"
    using assms(5,6)
    by (cases "send_returns env")
      (simp_all add: finish_line_def parse_image_def send_line_def prefix_text_def message_body_def
        Let_def split: prod.splits option.splits)
  obtain ev2 fin s2 where f: "finish_line env n s (strip rest) ms reply sent = (ev2, fin, s2)"
    by (cases "finish_line env n s (strip rest) ms reply sent")
  have "fst (process_line env n line amap sent) =
          replicate (pause_polls env) (ScriptSleep (1 / 2)) @ ev1 @ ev2"
    using assms(1-4) f by (simp add: process_line_def Let_def)
  then show ?thesis using quiet fl f ms by simp
qed

lemma scenario_b_lines: "script_lines scenario_b_line = [scenario_b_line]"
proof -
  have "split_on newline scenario_b_line = [scenario_b_line]"
    by (rule split_on_last) (rule example_lines_plain)
  then show ?thesis by (simp add: script_lines_def example_lines_plain)
qed

lemma swapped_accounts_simps:
  "swapped_accounts 1 = Some account_b" "swapped_accounts 2 = Some account_a"
  by (simp_all add: swapped_accounts_def)

text \<open>
  Claim C5.  The text of a mention is \<^verbatim>\<open>@handle\<close> when the mentioned account has a
  username; otherwise, when it has a numeric id, the link \<^verbatim>\<open>[name](tg://user?id=ID)\<close>;
  otherwise \<^verbatim>\<open>@name\<close>; each followed by a space, the name being the first name of the
  live lookup or else the stored name.  For the script line \<^verbatim>\<open>1\<close>, ideographic comma,
  \<^verbatim>\<open>@2\<close>, full-width colon, \<^verbatim>\<open>hello\<close>, with roles 1 and 2 bound and the sender's client
  connected, the engine makes one transport call from the account of role 1, without reply
  id, whose text is the mention of the account of role 2 followed by \<^verbatim>\<open>hello\<close>, stripped;
  when the handle of that account is \<^verbatim>\<open>bob\<close> the text is exactly \<^verbatim>\<open>@bob hello\<close>.  In
  general, a line without image marker whose sender is bound and connected and whose
  markers are read without exception makes one transport call, whose text is the mentions
  of the accounts the line mentions, in order, followed by the body, stripped.
\<close>

theorem mention_forms:
  assumes "amap 1 = Some a" and "amap 2 = Some b" and "sender_connected env"
    and "send_returns env = Some x"
  shows "(truthy (real_username b) \<longrightarrow>
            mention_text b = ascii ''@'' @ format_value (real_username b) @ ascii '' '')
       \<and> (\<not> truthy (real_username b) \<and> truthy (real_id b) \<longrightarrow>
            mention_text b =
              ascii ''['' @ format_value (case real_first_name b of None \<Rightarrow> acc_name b | Some v \<Rightarrow> v)
                @ ascii ''](tg://user?id='' @ format_value (real_id b) @ ascii '') '')
       \<and> (\<not> truthy (real_username b) \<and> \<not> truthy (real_id b) \<longrightarrow>
            mention_text b =
              ascii ''@'' @ format_value (case real_first_name b of None \<Rightarrow> acc_name b | Some v \<Rightarrow> v)
                @ ascii '' '')
       \<and> process_line env n scenario_b_line amap sent =
           (replicate (pause_polls env) (ScriptSleep (1 / 2)) @
              [SendMessage (acc_session_name a) (strip (mention_text b @ ascii ''hello'')) None],
            EndOfBody, sent(n \<mapsto> x))
       \<and> (real_username b = PyStr (ascii ''bob'') \<longrightarrow>
            process_line env n scenario_b_line amap sent =
              (replicate (pause_polls env) (ScriptSleep (1 / 2)) @
                 [SendMessage (acc_session_name a) (ascii ''@bob hello'') None],
               EndOfBody, sent(n \<mapsto> x)))
       \<and> (\<forall>line role rest r s ev1 reply ms k index.
            split_once role_separator line = (role, Some rest) \<and> py_int (strip role) = Inr r
            \<and> amap r = Some s
            \<and> parse_directives k (strip rest) amap index = (ev1, Inr (reply, ms))
            \<and> after_first (ascii ''IMG:'') (strip rest) = None \<longrightarrow>
            sends (fst (process_line env k line amap index)) =
              [SendMessage (acc_session_name s)
                 (strip (concat (map mention_text (mentioned amap (strip rest)))
                           @ message_body (strip rest)))
                 reply])"
proof -
  have forms:
    "truthy (real_username b) \<longrightarrow>
       mention_text b = ascii ''@'' @ format_value (real_username b) @ ascii '' ''"
    "\<not> truthy (real_username b) \<and> truthy (real_id b) \<longrightarrow>
       mention_text b =
         ascii ''['' @ format_value (case real_first_name b of None \<Rightarrow> acc_name b | Some v \<Rightarrow> v)
           @ ascii ''](tg://user?id='' @ format_value (real_id b) @ ascii '') ''"
    "\<not> truthy (real_username b) \<and> \<not> truthy (real_id b) \<longrightarrow>
       mention_text b =
         ascii ''@'' @ format_value (case real_first_name b of None \<Rightarrow> acc_name b | Some v \<Rightarrow> v)
           @ ascii '' ''"
    by (simp_all add: mention_text_def Let_def)
  note line = scenario_b_process [where amap = amap and a = a and b = b and env = env and x = x
      and n = n and sent = sent, OF assms]
  have bob: "real_username b = PyStr (ascii ''bob'') \<longrightarrow>
            process_line env n scenario_b_line amap sent =
              (replicate (pause_polls env) (ScriptSleep (1 / 2)) @
                 [SendMessage (acc_session_name a) (ascii ''@bob hello'') None],
               EndOfBody, sent(n \<mapsto> x))"
    using line by (simp add: mention_text_bob)
  have general: "\<forall>line role rest r s ev1 reply ms k index.
            split_once role_separator line = (role, Some rest) \<and> py_int (strip role) = Inr r
            \<and> amap r = Some s
            \<and> parse_directives k (strip rest) amap index = (ev1, Inr (reply, ms))
            \<and> after_first (ascii ''IMG:'') (strip rest) = None \<longrightarrow>
            sends (fst (process_line env k line amap index)) =
              [SendMessage (acc_session_name s)
                 (strip (concat (map mention_text (mentioned amap (strip rest)))
                           @ message_body (strip rest)))
                 reply]"
  proof (intro allI impI)
    fix line role rest r s ev1 reply ms k index
    assume h: "split_once role_separator line = (role, Some rest) \<and> py_int (strip role) = Inr r
            \<and> amap r = Some s
            \<and> parse_directives k (strip rest) amap index = (ev1, Inr (reply, ms))
            \<and> after_first (ascii ''IMG:'') (strip rest) = None"
    show "sends (fst (process_line env k line amap index)) =
              [SendMessage (acc_session_name s)
                 (strip (concat (map mention_text (mentioned amap (strip rest)))
                           @ message_body (strip rest)))
                 reply]"
      by (rule process_line_text [where role = role and r = r and ?ev1.0 = ev1 and ms = ms])
        (use h assms(3) in simp_all)
  qed
  from forms line bob general show ?thesis by (intro conjI)
qed

theorem mention_forms_witness:
  "mentioned example_accounts scenario_b_content = [account_b]
   \<and> message_body scenario_b_content = ascii ''hello''
   \<and> process_line (example_env 0) 1 scenario_b_line example_accounts Map.empty =
     ([SendMessage (ascii ''sa'') (ascii ''@bob hello'') None], EndOfBody, [1 \<mapsto> 100])
   \<and> execute_script example_env example_accounts scenario_b_line =
       Some ([SendMessage (ascii ''sa'') (ascii ''@bob hello'') None], [1 \<mapsto> 100])
   \<and> process_line (example_env 0) 1 scenario_b_line swapped_accounts Map.empty =
       ([SendMessage (ascii ''sb'') (ascii ''[Al](tg://user?id=555) hello'') None], EndOfBody,
        [1 \<mapsto> 100])"
proof -
  have bob: "strip (mention_text account_b @ ascii ''hello'') = ascii ''@bob hello''"
    by (rule mention_text_bob) (rule account_simps)
  have first: "process_line (example_env 0) 1 scenario_b_line example_accounts Map.empty =
     ([SendMessage (ascii ''sa'') (ascii ''@bob hello'') None], EndOfBody, [1 \<mapsto> 100])"
    using mention_forms [where amap = example_accounts and a = account_a and b = account_b
          and env = "example_env 0" and x = 100 and n = 1 and sent = Map.empty]
    by (simp add: example_env_simps example_accounts_simps account_simps bob)
  have swapped: "process_line (example_env 0) 1 scenario_b_line swapped_accounts Map.empty =
       ([SendMessage (ascii ''sb'') (ascii ''[Al](tg://user?id=555) hello'') None], EndOfBody,
        [1 \<mapsto> 100])"
    using mention_forms [where amap = swapped_accounts and a = account_b and b = account_a
          and env = "example_env 0" and x = 100 and n = 1 and sent = Map.empty]
    by (simp add: example_env_simps swapped_accounts_simps account_simps swapped_text)
  have run: "execute_script example_env example_accounts scenario_b_line =
       Some ([SendMessage (ascii ''sa'') (ascii ''@bob hello'') None], [1 \<mapsto> 100])"
    by (simp add: execute_script_lines scenario_b_lines run_script_loop_def first)
  have marks: "mentioned example_accounts scenario_b_content = [account_b]"
    "message_body scenario_b_content = ascii ''hello''"
    by (simp_all add: mentioned_def message_body_def scenario_b_meta scenario_b_marks py_int_2
          example_accounts_simps)
  from marks first run swapped show ?thesis by (intro conjI)
qed

text \<open>
  Claim C10.  The lines that run are the physical lines of the script text (split at
  newlines) that are not blank or whitespace-only, stripped and in order; the run starts
  from an empty index, and nothing runs when no line is left.  In a run over these lines
  the line at index \<open>k\<close> runs under the line number \<open>k + 1\<close>: the transport calls of the run
  are those of its lines in order, the index gets entries only for the numbers \<open>1\<close> to \<open>N\<close>,
  and the entry of \<open>k + 1\<close> after the run is the message id that the transport call of the
  line at index \<open>k\<close> returned (the entry is as before the run when that line made no call or
  the call raised).  So a reply marker \<^verbatim>\<open>R[K]\<close> of the line at index \<open>j\<close> makes every transport
  call of that line carry the id returned for the \<open>K\<close>-th of the remaining lines, when that is
  an earlier line with a transport call, and no reply id otherwise: \<open>K\<close> counts the non-blank
  lines, not the physical lines of the text.
\<close>

theorem line_numbers_skip_blank_lines:
  "script_lines script = map strip (filter (\<lambda>l. \<not> list_all is_space l) (split_on newline script))
   \<and> execute_script env amap script =
       (if script_lines script = [] then None
        else Some (run_script_loop env amap (script_lines script) Map.empty))
   \<and> sends (fst (run_script_loop env amap lines sent)) =
       concat (map (\<lambda>i. sends (line_events env amap lines sent i)) [0..<length lines])
   \<and> dom (snd (run_script_loop env amap lines Map.empty)) \<subseteq> {1..int (length lines)}
   \<and> (\<forall>k<length lines.
         snd (run_script_loop env amap lines sent) (int k + 1) =
           (if sends (line_events env amap lines sent k) \<noteq> [] \<and> send_returns (env k) \<noteq> None
            then send_returns (env k) else sent (int k + 1)))
   \<and> (\<forall>j K. j < length lines \<and> reply_target (lines ! j) = Some K \<longrightarrow>
         (\<forall>e\<in>set (sends (line_events env amap lines Map.empty j)).
            reply_to e =
              (if 0 < K \<and> K \<le> int j \<and> sends (line_events env amap lines Map.empty (nat (K - 1))) \<noteq> []
               then send_returns (env (nat (K - 1))) else None)))"
proof -
  have lines_of: "script_lines script =
      map strip (filter (\<lambda>l. \<not> list_all is_space l) (split_on newline script))"
    by (rule script_lines_filter)
  have exec: "execute_script env amap script =
       (if script_lines script = [] then None
        else Some (run_script_loop env amap (script_lines script) Map.empty))"
    by (rule execute_script_lines)
  have calls: "sends (fst (run_script_loop env amap lines sent)) =
       concat (map (\<lambda>i. sends (line_events env amap lines sent i)) [0..<length lines])"
    by (rule sends_run_script_loop)
  have keys: "dom (snd (run_script_loop env amap lines Map.empty)) \<subseteq> {1..int (length lines)}"
    using run_lines_dom [where env = env and amap = amap and i = 0 and lines = lines
        and sent = Map.empty]
    by (simp add: run_script_loop_def)
  have entries: "\<forall>k<length lines.
         snd (run_script_loop env amap lines sent) (int k + 1) =
           (if sends (line_events env amap lines sent k) \<noteq> [] \<and> send_returns (env k) \<noteq> None
            then send_returns (env k) else sent (int k + 1))"
  proof (intro allI impI)
    fix k assume kl: "k < length lines"
    show "snd (run_script_loop env amap lines sent) (int k + 1) =
           (if sends (line_events env amap lines sent k) \<noteq> [] \<and> send_returns (env k) \<noteq> None
            then send_returns (env k) else sent (int k + 1))"
      using sent_before_entry [OF kl order_refl, of env amap sent]
      by (simp only: sent_before_all)
  qed
  have replies: "\<forall>j K. j < length lines \<and> reply_target (lines ! j) = Some K \<longrightarrow>
         (\<forall>e\<in>set (sends (line_events env amap lines Map.empty j)).
            reply_to e =
              (if 0 < K \<and> K \<le> int j \<and> sends (line_events env amap lines Map.empty (nat (K - 1))) \<noteq> []
               then send_returns (env (nat (K - 1))) else None))"
  proof (intro allI impI)
    fix j K
    assume h: "j < length lines \<and> reply_target (lines ! j) = Some K"
    let ?s = "sent_before env amap lines Map.empty j"
    have jl: "j \<le> length lines" using h by simp
    obtain ev fin s' where pl: "process_line (env j) (int j + 1) (lines ! j) amap ?s = (ev, fin, s')"
      by (cases "process_line (env j) (int j + 1) (lines ! j) amap ?s")
    have le: "line_events env amap lines Map.empty j = ev"
      using pl by (simp add: line_events_def)
    have target: "reply_target (lines ! j) = Some K" using h by simp
    have reply: "\<forall>e\<in>set (sends ev). reply_to e = ?s K"
      using target pl by (rule process_line_reply)
    have entry: "?s K =
              (if 0 < K \<and> K \<le> int j \<and> sends (line_events env amap lines Map.empty (nat (K - 1))) \<noteq> []
               then send_returns (env (nat (K - 1))) else None)"
    proof (cases "K \<le> 0 \<or> int j < K")
      case True
      have "?s K = Map.empty K" using jl True by (rule sent_before_frame)
      with True show ?thesis by auto
    next
      case False
      then have kj: "nat (K - 1) < j" and K: "K = int (nat (K - 1)) + 1" by auto
      have "?s (int (nat (K - 1)) + 1) =
           (if sends (line_events env amap lines Map.empty (nat (K - 1))) \<noteq> []
               \<and> send_returns (env (nat (K - 1))) \<noteq> None
            then send_returns (env (nat (K - 1))) else Map.empty (int (nat (K - 1)) + 1))"
        using kj jl by (rule sent_before_entry)
      then have "?s K =
           (if sends (line_events env amap lines Map.empty (nat (K - 1))) \<noteq> []
               \<and> send_returns (env (nat (K - 1))) \<noteq> None
            then send_returns (env (nat (K - 1))) else None)"
        using K by simp
      with False show ?thesis by auto
    qed
    show "\<forall>e\<in>set (sends (line_events env amap lines Map.empty j)).
            reply_to e =
              (if 0 < K \<and> K \<le> int j \<and> sends (line_events env amap lines Map.empty (nat (K - 1))) \<noteq> []
               then send_returns (env (nat (K - 1))) else None)"
      unfolding le using reply entry by simp
  qed
  from lines_of exec calls keys entries replies show ?thesis by (intro conjI)
qed

theorem line_numbers_skip_blank_lines_witness:
  "split_on newline blank_script = [[], scenario_b_line, [32], reply_line]
   \<and> script_lines blank_script = [scenario_b_line, reply_line]
   \<and> execute_script example_env example_accounts blank_script =
       Some ([SendMessage (ascii ''sa'') (ascii ''@bob hello'') None, ScriptSleep 1,
              SendMessage (ascii ''sb'') (ascii ''thanks'') (Some 100)],
             [1 \<mapsto> 100, 2 \<mapsto> 101])
   \<and> reply_target (script_lines blank_script ! Suc 0) = Some 1
   \<and> map reply_to (sends (line_events example_env example_accounts (script_lines blank_script)
         Map.empty (Suc 0))) = [Some 100]"
proof -
  note inst = line_numbers_skip_blank_lines [where script = blank_script and env = example_env
      and amap = example_accounts and lines = "script_lines blank_script" and sent = Map.empty]
  have parts: "split_on newline blank_script = [[], scenario_b_line, [32], reply_line]"
    by (rule blank_script_split)
  have lines: "script_lines blank_script = [scenario_b_line, reply_line]"
    by (simp add: blank_script_lines reply_script_def)
  have run: "execute_script example_env example_accounts blank_script =
       Some ([SendMessage (ascii ''sa'') (ascii ''@bob hello'') None, ScriptSleep 1,
              SendMessage (ascii ''sb'') (ascii ''thanks'') (Some 100)],
             [1 \<mapsto> 100, 2 \<mapsto> 101])"
  proof -
    have ne: "reply_script \<noteq> []" by (simp add: reply_script_def)
    show ?thesis
      using inst [THEN conjunct2, THEN conjunct1]
      by (simp add: blank_script_lines ne reply_script_run)
  qed
  have target: "reply_target (script_lines blank_script ! Suc 0) = Some 1"
    by (simp add: blank_script_lines reply_script_simps reply_line_target)
  have reply: "map reply_to (sends (line_events example_env example_accounts (script_lines blank_script)
         Map.empty (Suc 0))) = [Some 100]"
    by (simp add: blank_script_lines reply_script_second)
  from parts lines run target reply show ?thesis by (intro conjI)
qed

end
